theory Spec2Isabelle
  imports Complex_Main "HOL-Library.Char_ord" "HOL-Library.List_Lexorder"
begin

section \<open>Data model (src/src/types.ts)\<close>

text \<open>
  A JavaScript \<open>number\<close> is modelled as a \<open>real\<close>: the arithmetic of the source is read
  exactly, without rounding or overflow to infinity; the one NaN that is kept is that of
  \<open>Math.sqrt\<close> on a negative number in \<open>calculateDistance\<close>. A count that the source obtains
  from \<open>Array.length\<close> or by adding one to such a count is a \<open>nat\<close>.
  Field names are those of the source; where two interfaces share a field name the later
  one carries a suffix (\<open>D\<close> for Detection, \<open>R\<close> for DetectionResult).
\<close>

record LatLng =
  latitude :: real
  longitude :: real

record Accelerometer =
  acc_x :: real
  acc_y :: real
  acc_z :: real

record Gps = LatLng +
  accuracy :: real
  speed :: "real option"

record SensorReading =
  timestamp :: real
  accelerometer :: Accelerometer
  gps :: Gps

record ProcessedWindow =
  startTime :: real
  endTime :: real
  magnitude :: real
  peakMagnitude :: real
  averageSpeed :: real
  centroid :: LatLng
  sampleCount :: nat

datatype DefectType = pothole | speed_breaker | normal

record DetectionResult =
  defectTypeR :: DefectType
  confidenceR :: real
  severityR :: real

record Detection =
  sessionId :: string
  userId :: string
  timestampD :: real
  locationD :: LatLng
  defectTypeD :: DefectType
  confidenceD :: real
  severityD :: real
  processedWindow :: ProcessedWindow

record AppConfig =
  minSpeedThreshold :: real
  windowDurationMs :: real
  magnitudeThreshold :: real
  confidenceThreshold :: real
  sampleRateHz :: real
  aggregationRadiusMeters :: real

definition DEFAULT_CONFIG :: AppConfig where
  "DEFAULT_CONFIG =
     \<lparr>minSpeedThreshold = 5, windowDurationMs = 1500, magnitudeThreshold = 2.5,
      confidenceThreshold = 0.7, sampleRateHz = 60, aggregationRadiusMeters = 20\<rparr>"

section \<open>Signal Processor (src/src/utils/signalProcessor.ts)\<close>

text \<open>
  The processor's state is its configuration, its buffer and its callback slot. The
  callback is an external collaborator: the state records whether one is registered
  (\<open>windowCallback\<close> is \<open>null\<close> until \<open>setWindowCallback\<close>), and an invocation is
  recorded as the window handed to it.
\<close>

record SignalProcessor =
  config :: AppConfig
  buffer :: "SensorReading list"
  windowCallback :: bool

definition constructor :: "AppConfig \<Rightarrow> SignalProcessor" where
  "constructor cfg = \<lparr>config = cfg, buffer = [], windowCallback = False\<rparr>"

definition setWindowCallback :: "SignalProcessor \<Rightarrow> SignalProcessor" where
  "setWindowCallback s = s\<lparr>windowCallback := True\<rparr>"

definition reset :: "SignalProcessor \<Rightarrow> SignalProcessor" where
  "reset s = s\<lparr>buffer := []\<rparr>"

text \<open>\<open>Date.now()\<close> is an input: the wall clock \<open>now\<close> read at the call.\<close>

definition pruneOldReadings :: "real \<Rightarrow> SignalProcessor \<Rightarrow> SignalProcessor" where
  "pruneOldReadings now s =
     (let cutoff = now - windowDurationMs (config s) * 2
      in s\<lparr>buffer := filter (\<lambda>r. timestamp r > cutoff) (buffer s)\<rparr>)"

definition calculateMagnitude :: "Accelerometer \<Rightarrow> real" where
  "calculateMagnitude acc =
     (let gravity = 9.81;
          totalMag = sqrt ((acc_x acc)\<^sup>2 + (acc_y acc)\<^sup>2 + (acc_z acc)\<^sup>2)
      in \<bar>totalMag - gravity\<bar>)"

definition calculateRMS :: "real list \<Rightarrow> real" where
  "calculateRMS values =
     (if length values = 0 then 0
      else let sumSquares = foldl (\<lambda>sum v. sum + v\<^sup>2) 0 values
           in sqrt (sumSquares / real (length values)))"

definition average :: "real list \<Rightarrow> real" where
  "average values =
     (if length values = 0 then 0
      else foldl (\<lambda>sum v. sum + v) 0 values / real (length values))"

text \<open>
  \<open>processWindow\<close> reads \<open>readings[0].timestamp\<close>, which throws a TypeError on an empty
  array: that is the result \<open>None\<close>. On a non-empty array \<open>Math.max(...magnitudes)\<close> is
  the largest element.
\<close>

fun processWindow :: "SensorReading list \<Rightarrow> ProcessedWindow option" where
  "processWindow [] = None"
| "processWindow (r # rs) =
     (let readings = r # rs;
          magnitudes = map (\<lambda>r. calculateMagnitude (accelerometer r)) readings;
          speeds = map the (filter (\<lambda>s. s \<noteq> None) (map (\<lambda>r. speed (gps r)) readings));
          latitudes = map (\<lambda>r. latitude (gps r)) readings;
          longitudes = map (\<lambda>r. longitude (gps r)) readings
      in Some \<lparr>startTime = timestamp (readings ! 0),
               endTime = timestamp (readings ! (length readings - 1)),
               magnitude = calculateRMS magnitudes,
               peakMagnitude = foldl max (hd magnitudes) (tl magnitudes),
               averageSpeed = (if length speeds > 0 then average speeds * 3.6 else 0),
               centroid = \<lparr>latitude = average latitudes, longitude = average longitudes\<rparr>,
               sampleCount = length readings\<rparr>)"

definition shouldEmitWindow :: "AppConfig \<Rightarrow> ProcessedWindow \<Rightarrow> bool" where
  "shouldEmitWindow cfg window =
     (if averageSpeed window < minSpeedThreshold cfg then False
      else if peakMagnitude window < magnitudeThreshold cfg then False
      else let expectedSamples = (windowDurationMs cfg / 1000) * sampleRateHz cfg * 0.5
           in if real (sampleCount window) < expectedSamples then False
              else True)"

text \<open>
  A completed window is reported as the triple of the selected readings, their summary and
  whether the callback was invoked with it. \<open>checkWindowComplete\<close> returns the new state
  and the completed window, if any.
\<close>

type_synonym WindowEvent = "SensorReading list \<times> ProcessedWindow \<times> bool"

definition checkWindowComplete :: "SignalProcessor \<Rightarrow> SignalProcessor \<times> WindowEvent option" where
  "checkWindowComplete s =
     (if length (buffer s) < 2 then (s, None)
      else
        let windowStart = timestamp (buffer s ! 0);
            windowEnd = timestamp (buffer s ! (length (buffer s) - 1))
        in if windowEnd - windowStart \<ge> windowDurationMs (config s) then
             let windowReadings = filter (\<lambda>r. timestamp r \<ge> windowStart
                     \<and> timestamp r < windowStart + windowDurationMs (config s)) (buffer s)
             in if length windowReadings > 0 then
                  (case processWindow windowReadings of
                     None \<Rightarrow> (s, None)
                   | Some processed \<Rightarrow>
                       let invoked = (shouldEmitWindow (config s) processed \<and> windowCallback s);
                           slidePoint = windowStart + windowDurationMs (config s) / 2
                       in (s\<lparr>buffer := filter (\<lambda>r. timestamp r \<ge> slidePoint) (buffer s)\<rparr>,
                           Some (windowReadings, processed, invoked)))
                else (s, None)
           else (s, None))"

definition addReading :: "real \<Rightarrow> SensorReading \<Rightarrow> SignalProcessor \<Rightarrow> SignalProcessor \<times> WindowEvent option" where
  "addReading now reading s =
     checkWindowComplete (pruneOldReadings now (s\<lparr>buffer := buffer s @ [reading]\<rparr>))"

text \<open>
  A sequence of \<open>addReading\<close> calls, each with the clock value read at that call; the result
  is the sequence of completed windows, in order.
\<close>

fun addReadings :: "SignalProcessor \<Rightarrow> (real \<times> SensorReading) list \<Rightarrow> WindowEvent list" where
  "addReadings s [] = []"
| "addReadings s ((now, reading) # rest) =
     (case addReading now reading s of
        (s', None) \<Rightarrow> addReadings s' rest
      | (s', Some ev) \<Rightarrow> ev # addReadings s' rest)"

definition selected :: "WindowEvent \<Rightarrow> SensorReading list" where
  "selected ev = fst ev"

definition summary :: "WindowEvent \<Rightarrow> ProcessedWindow" where
  "summary ev = fst (snd ev)"

definition emitted :: "WindowEvent list \<Rightarrow> ProcessedWindow list" where
  "emitted evs = map summary (filter (\<lambda>ev. snd (snd ev)) evs)"

definition invoked :: "WindowEvent \<Rightarrow> bool" where
  "invoked ev = snd (snd ev)"

section \<open>Classification and the detection gate (mlClient.ts, Dashboard.tsx)\<close>

text \<open>\<open>Math.round\<close> rounds to the nearest integer, a tie towards plus infinity.\<close>

definition Math_round :: "real \<Rightarrow> real" where
  "Math_round v = of_int \<lfloor>v + 1 / 2\<rfloor>"

definition classifyLocally :: "ProcessedWindow \<Rightarrow> DetectionResult" where
  "classifyLocally window =
     (if peakMagnitude window > 8 \<and> magnitude window > 4 then
        \<lparr>defectTypeR = pothole,
         confidenceR = min 0.85 (peakMagnitude window / 15),
         severityR = min 10 (Math_round (peakMagnitude window / 1.5))\<rparr>
      else if magnitude window > 3 \<and> peakMagnitude window < 10 \<and> averageSpeed window < 30 then
        \<lparr>defectTypeR = speed_breaker,
         confidenceR = min 0.9 (magnitude window / 6),
         severityR = min 10 (Math_round (magnitude window * 1.5))\<rparr>
      else \<lparr>defectTypeR = normal, confidenceR = 0.95, severityR = 0\<rparr>)"

text \<open>
  \<open>classifyWithML\<close> awaits the remote callable and falls back to the local classifier when
  the call throws. The outcome of the remote call is an input: \<open>Some\<close> of the returned
  result, or \<open>None\<close> when it threw.
\<close>

definition classifyWithML :: "DetectionResult option \<Rightarrow> ProcessedWindow \<Rightarrow> DetectionResult" where
  "classifyWithML remote window =
     (case remote of Some result \<Rightarrow> result | None \<Rightarrow> classifyLocally window)"

text \<open>
  \<open>handleProcessedWindow\<close> returns the detection it hands to \<open>saveDetection\<close>, or \<open>None\<close>
  when it saves nothing. The session id is \<open>null\<close> (\<open>None\<close>) or a string; an empty string
  is falsy.
\<close>

definition handleProcessedWindow ::
  "string option \<Rightarrow> string \<Rightarrow> DetectionResult option \<Rightarrow> ProcessedWindow \<Rightarrow> Detection option" where
  "handleProcessedWindow sessionId' userId' remote window =
     (case sessionId' of
        None \<Rightarrow> None
      | Some sid \<Rightarrow>
          if sid = [] \<or> userId' = [] then None
          else
            let result = classifyWithML remote window
            in if defectTypeR result \<noteq> normal
                  \<and> confidenceR result \<ge> confidenceThreshold DEFAULT_CONFIG then
                 Some \<lparr>sessionId = sid, userId = userId', timestampD = endTime window,
                       locationD = centroid window, defectTypeD = defectTypeR result,
                       confidenceD = confidenceR result, severityD = severityR result,
                       processedWindow = window\<rparr>
               else None)"

section \<open>Geo math (src/functions/src/index.ts)\<close>

definition BASE32 :: string where
  "BASE32 = ''0123456789bcdefghjkmnpqrstuvwxyz''"

text \<open>\<open>String.charAt\<close> returns the empty string for an index out of range.\<close>

definition charAt :: "string \<Rightarrow> nat \<Rightarrow> string" where
  "charAt str i = (if i < length str then [str ! i] else [])"

text \<open>
  The body of the \<open>while\<close> loop of \<open>encodeGeohash\<close>, on the loop variables
  \<open>(idx, bit, evenBit, geohash, latMin, latMax, lngMin, lngMax)\<close> (\<open>bit\<close> and \<open>geohash\<close>
  are written with a prime).
\<close>

type_synonym GeohashVars = "nat \<times> nat \<times> bool \<times> string \<times> real \<times> real \<times> real \<times> real"

definition geohashBody :: "real \<Rightarrow> real \<Rightarrow> GeohashVars \<Rightarrow> GeohashVars" where
  "geohashBody lat lng vars =
     (case vars of (idx, bit', evenBit, geohash', latMin, latMax, lngMin, lngMax) \<Rightarrow>
        let (idx1, latMin1, latMax1, lngMin1, lngMax1) =
              (if evenBit then
                 let lngMid = (lngMin + lngMax) / 2
                 in if lng \<ge> lngMid then (idx * 2 + 1, latMin, latMax, lngMid, lngMax)
                    else (idx * 2, latMin, latMax, lngMin, lngMid)
               else
                 let latMid = (latMin + latMax) / 2
                 in if lat \<ge> latMid then (idx * 2 + 1, latMid, latMax, lngMin, lngMax)
                    else (idx * 2, latMin, latMid, lngMin, lngMax));
            evenBit1 = (\<not> evenBit);
            bit1 = bit' + 1
        in if bit1 = 5 then (0, 0, evenBit1, geohash' @ charAt BASE32 idx1, latMin1, latMax1, lngMin1, lngMax1)
           else (idx1, bit1, evenBit1, geohash', latMin1, latMax1, lngMin1, lngMax1))"

definition geohashOf :: "GeohashVars \<Rightarrow> string" where
  "geohashOf vars = (case vars of (idx, bit', evenBit, geohash', rest) \<Rightarrow> geohash')"

text \<open>The loop itself; \<open>None\<close> is the loop that never ends.\<close>

partial_function (option) geohashLoop :: "real \<Rightarrow> real \<Rightarrow> nat \<Rightarrow> GeohashVars \<Rightarrow> string option" where
  "geohashLoop lat lng precision vars =
     (if length (geohashOf vars) < precision
      then geohashLoop lat lng precision (geohashBody lat lng vars)
      else Some (geohashOf vars))"

definition encodeGeohash :: "real \<Rightarrow> real \<Rightarrow> nat \<Rightarrow> string option" where
  "encodeGeohash lat lng precision =
     geohashLoop lat lng precision (0, 0, True, [], -90, 90, -180, 180)"

text \<open>
  \<open>Math.atan2\<close> on the reals. \<open>Math.sqrt\<close> of a negative number is NaN, and every
  comparison with NaN is false: \<open>calculateDistance\<close> returns \<open>None\<close> for NaN.
\<close>

definition Math_atan2 :: "real \<Rightarrow> real \<Rightarrow> real" where
  "Math_atan2 y x =
     (if x > 0 then arctan (y / x)
      else if x < 0 \<and> y \<ge> 0 then arctan (y / x) + pi
      else if x < 0 \<and> y < 0 then arctan (y / x) - pi
      else if y > 0 then pi / 2
      else if y < 0 then - pi / 2
      else 0)"

definition calculateDistance :: "real \<Rightarrow> real \<Rightarrow> real \<Rightarrow> real \<Rightarrow> real option" where
  "calculateDistance lat1 lon1 lat2 lon2 =
     (let R = 6371000;
          dLat = (lat2 - lat1) * pi / 180;
          dLon = (lon2 - lon1) * pi / 180;
          a = sin (dLat / 2) * sin (dLat / 2)
              + cos (lat1 * pi / 180) * cos (lat2 * pi / 180) * sin (dLon / 2) * sin (dLon / 2)
      in if a < 0 \<or> 1 - a < 0 then None
         else Some (R * (2 * Math_atan2 (sqrt a) (sqrt (1 - a)))))"

section \<open>Aggregation Engine and Retention Sweeper (src/functions/src/index.ts)\<close>

text \<open>
  The \<open>aggregatedReports\<close> collection is the list of its documents in the order in which a
  query returns them; a document reference is the position in that list. A Firestore
  timestamp is its time in epoch milliseconds.
\<close>

record AggregatedReport =
  geohash :: string
  location :: LatLng
  defectType :: DefectType
  averageSeverity :: real
  reportCount :: nat
  uniqueUsers :: "string list"
  firstReported :: real
  lastReported :: real
  credibilityScore :: real

definition AGGREGATION_RADIUS :: real where
  "AGGREGATION_RADIUS = 25"

text \<open>
  The query's upper-bound suffix, the one-character string of code point U+F8FF, in the byte order in which Firestore compares strings: the
  UTF-8 encoding of the code point U+F8FF.
\<close>

definition uf8ff :: string where
  "uf8ff = [CHR 0xEF, CHR 0xA3, CHR 0xBF]"

definition nearbyReports ::
  "AggregatedReport list \<Rightarrow> string \<Rightarrow> DefectType \<Rightarrow> (nat \<times> AggregatedReport) list" where
  "nearbyReports store gh dt =
     filter (\<lambda>(ref, report). geohash report \<ge> take 5 gh
                \<and> geohash report \<le> take 5 gh @ uf8ff
                \<and> defectType report = dt)
       (enumerate 0 store)"

definition withinRadius :: "real \<Rightarrow> real \<Rightarrow> AggregatedReport \<Rightarrow> bool" where
  "withinRadius lat lng report =
     (case calculateDistance lat lng (latitude (location report)) (longitude (location report)) of
        None \<Rightarrow> False
      | Some distance \<Rightarrow> distance \<le> AGGREGATION_RADIUS)"

definition matchedReport ::
  "AggregatedReport list \<Rightarrow> string \<Rightarrow> Detection \<Rightarrow> (nat \<times> AggregatedReport) option" where
  "matchedReport store gh detection =
     List.find (\<lambda>(ref, report). withinRadius (latitude (locationD detection))
                                    (longitude (locationD detection)) report)
       (nearbyReports store gh (defectTypeD detection))"

text \<open>
  \<open>aggregateDetection\<close> returns the collection after the trigger has run; \<open>None\<close> would be
  a geohash loop that never ends.
\<close>

definition aggregateDetection :: "AggregatedReport list \<Rightarrow> Detection \<Rightarrow> AggregatedReport list option" where
  "aggregateDetection store detection =
     (if defectTypeD detection = normal then Some store
      else
        let lat = latitude (locationD detection);
            lng = longitude (locationD detection)
        in case encodeGeohash lat lng 7 of
             None \<Rightarrow> None
           | Some gh \<Rightarrow>
               (case matchedReport store gh detection of
                  Some (ref, existing) \<Rightarrow>
                    let uniqueUsers1 =
                          (if userId detection \<in> set (uniqueUsers existing) then uniqueUsers existing
                           else uniqueUsers existing @ [userId detection]);
                        newReportCount = reportCount existing + 1;
                        newAverageSeverity =
                          (averageSeverity existing * real (reportCount existing) + severityD detection)
                            / real newReportCount;
                        credibilityScore1 =
                          min 1 (0.3 + real (length uniqueUsers1) * 0.15
                                   + log 10 (real newReportCount) * 0.2)
                    in Some (store[ref := (store ! ref)
                               \<lparr>reportCount := newReportCount,
                                averageSeverity := newAverageSeverity,
                                uniqueUsers := uniqueUsers1,
                                lastReported := timestampD detection,
                                credibilityScore := credibilityScore1\<rparr>])
                | None \<Rightarrow>
                    Some (store @
                      [\<lparr>geohash = gh,
                        location = \<lparr>latitude = lat, longitude = lng\<rparr>,
                        defectType = defectTypeD detection,
                        averageSeverity = severityD detection,
                        reportCount = 1,
                        uniqueUsers = [userId detection],
                        firstReported = timestampD detection,
                        lastReported = timestampD detection,
                        credibilityScore = 0.3\<rparr>])))"

definition unverifiedReports :: "real \<Rightarrow> AggregatedReport list \<Rightarrow> (nat \<times> AggregatedReport) list" where
  "unverifiedReports now store =
     (let cutoff = now - 30 * 24 * 60 * 60 * 1000
      in filter (\<lambda>(ref, report). reportCount report = 1 \<and> lastReported report < cutoff)
           (enumerate 0 store))"

definition cleanupOldDetections :: "real \<Rightarrow> AggregatedReport list \<Rightarrow> AggregatedReport list" where
  "cleanupOldDetections now store =
     (let batch = map fst (unverifiedReports now store)
      in if length (unverifiedReports now store) > 0
         then map snd (filter (\<lambda>(ref, report). ref \<notin> set batch) (enumerate 0 store))
         else store)"

section \<open>Sample inputs\<close>

text \<open>
  Concrete inputs on which the theorems below are instantiated: a device in free fall
  (zero accelerometer reading, hence a magnitude of 9.81) that reports a GPS speed or none,
  a configuration with a sample rate of 2 Hz, and reports and detections at two places.
\<close>

definition reading_at :: "real \<Rightarrow> real option \<Rightarrow> SensorReading" where
  "reading_at t sp =
     \<lparr>timestamp = t, accelerometer = \<lparr>acc_x = 0, acc_y = 0, acc_z = 0\<rparr>,
      gps = \<lparr>latitude = 28.6139, longitude = 77.2090, accuracy = 10, speed = sp\<rparr>\<rparr>"

definition sparse_config :: AppConfig where
  "sparse_config = DEFAULT_CONFIG\<lparr>sampleRateHz := 2\<rparr>"

definition sparse_processor :: SignalProcessor where
  "sparse_processor = setWindowCallback (constructor sparse_config)"

definition sparse_ride :: "(real \<times> SensorReading) list" where
  "sparse_ride = map (\<lambda>t. (t, reading_at t (Some 10))) [0, 700, 1500, 2300, 3100, 3800]"

definition stalled_processor :: SignalProcessor where
  "stalled_processor =
     \<lparr>config = DEFAULT_CONFIG,
      buffer = [reading_at 0 None, reading_at 700 None, reading_at 1500 None],
      windowCallback = True\<rparr>"

definition weak_pothole :: DetectionResult where
  "weak_pothole = \<lparr>defectTypeR = pothole, confidenceR = 0.65, severityR = 7\<rparr>"

definition window_90 :: ProcessedWindow where
  "window_90 = \<lparr>startTime = 0, endTime = 1400, magnitude = 6.2, peakMagnitude = 9.1,
      averageSpeed = 18, centroid = \<lparr>latitude = 28.6139, longitude = 77.2090\<rparr>, sampleCount = 90\<rparr>"

definition delhi_report :: AggregatedReport where
  "delhi_report =
     \<lparr>geohash = ''ttnfucj'', location = \<lparr>latitude = 28.6139, longitude = 77.2090\<rparr>,
      defectType = pothole, averageSeverity = 8, reportCount = 1, uniqueUsers = [''alice''],
      firstReported = 1000, lastReported = 1000, credibilityScore = 0.3\<rparr>"

definition delhi_detection :: "string \<Rightarrow> real \<Rightarrow> real \<Rightarrow> Detection" where
  "delhi_detection user sev t =
     \<lparr>sessionId = ''session'', userId = user, timestampD = t,
      locationD = \<lparr>latitude = 28.6139, longitude = 77.2090\<rparr>, defectTypeD = pothole,
      confidenceD = 0.92, severityD = sev,
      processedWindow = \<lparr>startTime = 0, endTime = 0, magnitude = 6.2, peakMagnitude = 9.1,
        averageSpeed = 18, centroid = \<lparr>latitude = 28.6139, longitude = 77.2090\<rparr>,
        sampleCount = 90\<rparr>\<rparr>"

definition origin_far_report :: AggregatedReport where
  "origin_far_report =
     \<lparr>geohash = ''xbpbpbp'', location = \<lparr>latitude = 0, longitude = 180\<rparr>,
      defectType = pothole, averageSeverity = 5, reportCount = 3,
      uniqueUsers = [''carol'', ''dave''], firstReported = 10, lastReported = 900,
      credibilityScore = 0.7\<rparr>"

definition origin_breaker_report :: AggregatedReport where
  "origin_breaker_report =
     \<lparr>geohash = ''s000000'', location = \<lparr>latitude = 0, longitude = 0\<rparr>,
      defectType = speed_breaker, averageSeverity = 4, reportCount = 1,
      uniqueUsers = [''carol''], firstReported = 20, lastReported = 20,
      credibilityScore = 0.3\<rparr>"

definition origin_detection :: Detection where
  "origin_detection =
     \<lparr>sessionId = ''session'', userId = ''alice'', timestampD = 1000,
      locationD = \<lparr>latitude = 0, longitude = 0\<rparr>, defectTypeD = pothole,
      confidenceD = 0.92, severityD = 8,
      processedWindow = \<lparr>startTime = 0, endTime = 1000, magnitude = 6.2, peakMagnitude = 9.1,
        averageSpeed = 18, centroid = \<lparr>latitude = 0, longitude = 0\<rparr>, sampleCount = 90\<rparr>\<rparr>"

definition day :: real where
  "day = 24 * 60 * 60 * 1000"

definition old_single :: AggregatedReport where
  "old_single = delhi_report\<lparr>lastReported := 1000 * day - 31 * day\<rparr>"

definition recent_single :: AggregatedReport where
  "recent_single = delhi_report\<lparr>lastReported := 1000 * day - 29 * day\<rparr>"

definition old_verified :: AggregatedReport where
  "old_verified = delhi_report\<lparr>reportCount := 2, lastReported := 1000 * day - 400 * day\<rparr>"

definition near_miss_report :: AggregatedReport where
  "near_miss_report =
     \<lparr>geohash = ''ttnfucj'', location = \<lparr>latitude = 28.6149, longitude = 77.2090\<rparr>,
      defectType = pothole, averageSeverity = 3, reportCount = 4,
      uniqueUsers = [''carol'', ''dave''], firstReported = 50, lastReported = 700,
      credibilityScore = 0.72\<rparr>"

definition delhi_breaker_report :: AggregatedReport where
  "delhi_breaker_report =
     \<lparr>geohash = ''ttnfucj'', location = \<lparr>latitude = 28.6139, longitude = 77.2090\<rparr>,
      defectType = speed_breaker, averageSeverity = 4, reportCount = 1,
      uniqueUsers = [''carol''], firstReported = 20, lastReported = 20,
      credibilityScore = 0.3\<rparr>"

definition delhi_later_report :: AggregatedReport where
  "delhi_later_report =
     \<lparr>geohash = ''ttnfucj'', location = \<lparr>latitude = 28.6139, longitude = 77.2090\<rparr>,
      defectType = pothole, averageSeverity = 9, reportCount = 1,
      uniqueUsers = [''erin''], firstReported = 1500, lastReported = 1500,
      credibilityScore = 0.3\<rparr>"

definition delhi_store :: "AggregatedReport list" where
  "delhi_store = [delhi_breaker_report, near_miss_report, delhi_report, delhi_later_report]"

definition passing_processor :: SignalProcessor where
  "passing_processor =
     \<lparr>config = sparse_config,
      buffer = [reading_at 0 (Some 10), reading_at 500 (Some 10), reading_at 1000 (Some 10),
                reading_at 1500 (Some 10)],
      windowCallback = True\<rparr>"

section \<open>Auxiliary notions\<close>

text \<open>
  \<open>good D b evs\<close>: the completed windows \<open>evs\<close> of a run with window duration \<open>D\<close>: each
  is non-empty, is summarised by \<open>processWindow\<close>, holds readings of one window length from
  its start, starts at or after \<open>b\<close>, and the next one starts at least half a window later.
\<close>

fun good :: "real \<Rightarrow> real \<Rightarrow> WindowEvent list \<Rightarrow> bool" where
  "good D b [] = True"
| "good D b (ev # rest) =
     (selected ev \<noteq> [] \<and> 0 < D \<and> processWindow (selected ev) = Some (summary ev)
      \<and> b \<le> startTime (summary ev)
      \<and> (\<forall>x\<in>set (selected ev). startTime (summary ev) \<le> timestamp x
             \<and> timestamp x < startTime (summary ev) + D)
      \<and> good D (startTime (summary ev) + D / 2) rest)"

text \<open>The loop variables \<open>idx\<close> and \<open>bit\<close>, and the invariant of the geohash loop.\<close>

definition idxOf :: "GeohashVars \<Rightarrow> nat" where
  "idxOf vars = fst vars"

definition bitOf :: "GeohashVars \<Rightarrow> nat" where
  "bitOf vars = fst (snd vars)"

definition geohashInv :: "GeohashVars \<Rightarrow> bool" where
  "geohashInv vars \<longleftrightarrow> bitOf vars < 5 \<and> idxOf vars < 2 ^ bitOf vars"

text \<open>The selection predicate of the Retention Sweeper's query, 30 days in milliseconds.\<close>

definition stale :: "real \<Rightarrow> AggregatedReport \<Rightarrow> bool" where
  "stale now report \<longleftrightarrow> reportCount report = 1 \<and> lastReported report < now - 2592000000"

section \<open>Signal Processor: the emission gate\<close>

lemma shouldEmitWindow_iff:
  "shouldEmitWindow cfg w \<longleftrightarrow>
     averageSpeed w \<ge> minSpeedThreshold cfg
     \<and> peakMagnitude w \<ge> magnitudeThreshold cfg
     \<and> real (sampleCount w) \<ge> (windowDurationMs cfg / 1000) * sampleRateHz cfg * 0.5"
  by (auto simp add: shouldEmitWindow_def Let_def)

lemma processWindow_Some:
  assumes "processWindow sel = Some w"
  shows "sel \<noteq> []" and "startTime w = timestamp (hd sel)" and "endTime w = timestamp (last sel)"
    and "sampleCount w = length sel"
  using assms by (cases sel; auto simp add: Let_def last_conv_nth)+

lemma checkWindowComplete_None: "checkWindowComplete s = (s', None) \<Longrightarrow> s' = s"
  by (auto simp add: checkWindowComplete_def Let_def split: if_splits option.splits)

lemma checkWindowComplete_Some:
  assumes "checkWindowComplete s = (s', Some (sel, w, ivk))"
  defines "ws \<equiv> timestamp (hd (buffer s))"
  defines "D \<equiv> windowDurationMs (config s)"
  shows "buffer s \<noteq> []"
    and "timestamp (last (buffer s)) - ws \<ge> D"
    and "sel = filter (\<lambda>r. timestamp r \<ge> ws \<and> timestamp r < ws + D) (buffer s)"
    and "processWindow sel = Some w"
    and "ivk = (shouldEmitWindow (config s) w \<and> windowCallback s)"
    and "s' = s\<lparr>buffer := filter (\<lambda>r. timestamp r \<ge> ws + D / 2) (buffer s)\<rparr>"
proof -
  from assms(1) have len: "\<not> length (buffer s) < 2"
    by (auto simp add: checkWindowComplete_def)
  then show ne: "buffer s \<noteq> []" by auto
  have h: "buffer s ! 0 = hd (buffer s)" using ne by (simp add: hd_conv_nth)
  have l: "buffer s ! (length (buffer s) - Suc 0) = last (buffer s)" using ne by (simp add: last_conv_nth)
  from assms(1) len show "timestamp (last (buffer s)) - ws \<ge> D"
    and "sel = filter (\<lambda>r. timestamp r \<ge> ws \<and> timestamp r < ws + D) (buffer s)"
    and "processWindow sel = Some w"
    and "ivk = (shouldEmitWindow (config s) w \<and> windowCallback s)"
    and "s' = s\<lparr>buffer := filter (\<lambda>r. timestamp r \<ge> ws + D / 2) (buffer s)\<rparr>"
    unfolding ws_def D_def
    by (auto simp add: checkWindowComplete_def Let_def h l split: if_splits option.splits)
qed

lemma processWindow_nonempty: "sel \<noteq> [] \<Longrightarrow> \<exists>w. processWindow sel = Some w"
  by (cases sel) (simp_all add: Let_def)

lemma processWindow_no_speed:
  assumes "processWindow sel = Some w" and "\<forall>r\<in>set sel. speed (gps r) = None"
  shows "averageSpeed w = 0"
proof -
  from assms(2) have "map (\<lambda>r. speed (gps r)) sel = map (\<lambda>r. None) sel"
    by (simp cong: map_cong)
  with assms(1) show ?thesis by (cases sel) (auto simp add: Let_def)
qed

lemma checkWindowComplete_complete:
  assumes "2 \<le> length (buffer s)"
    and "windowDurationMs (config s) \<le> timestamp (last (buffer s)) - timestamp (hd (buffer s))"
    and "processWindow (filter (\<lambda>r. timestamp (hd (buffer s)) \<le> timestamp r
            \<and> timestamp r < timestamp (hd (buffer s)) + windowDurationMs (config s)) (buffer s)) = Some w"
  shows "checkWindowComplete s =
           (s\<lparr>buffer := filter (\<lambda>r. timestamp (hd (buffer s)) + windowDurationMs (config s) / 2
                                     \<le> timestamp r) (buffer s)\<rparr>,
            Some (filter (\<lambda>r. timestamp (hd (buffer s)) \<le> timestamp r
                    \<and> timestamp r < timestamp (hd (buffer s)) + windowDurationMs (config s)) (buffer s),
                  w, shouldEmitWindow (config s) w \<and> windowCallback s))"
proof -
  from assms(1) have ne: "buffer s \<noteq> []" by auto
  have h: "buffer s ! 0 = hd (buffer s)" using ne by (simp add: hd_conv_nth)
  have l: "buffer s ! (length (buffer s) - Suc 0) = last (buffer s)"
    using ne by (simp add: last_conv_nth)
  from processWindow_Some(1) [OF assms(3)] assms show ?thesis
    by (simp add: checkWindowComplete_def Let_def h l)
qed

lemma checkWindowComplete_incomplete:
  assumes "\<not> (2 \<le> length (buffer s)
      \<and> windowDurationMs (config s) \<le> timestamp (last (buffer s)) - timestamp (hd (buffer s))
      \<and> filter (\<lambda>r. timestamp (hd (buffer s)) \<le> timestamp r
            \<and> timestamp r < timestamp (hd (buffer s)) + windowDurationMs (config s)) (buffer s) \<noteq> [])"
  shows "checkWindowComplete s = (s, None)"
proof (cases "length (buffer s) < 2")
  case True
  then show ?thesis by (simp add: checkWindowComplete_def)
next
  case False
  then have ne: "buffer s \<noteq> []" by auto
  have h: "buffer s ! 0 = hd (buffer s)" using ne by (simp add: hd_conv_nth)
  have l: "buffer s ! (length (buffer s) - Suc 0) = last (buffer s)"
    using ne by (simp add: last_conv_nth)
  from False assms show ?thesis
    by (auto simp add: checkWindowComplete_def Let_def h l)
qed

lemma passing_selected:
  "filter (\<lambda>r. timestamp (hd (buffer passing_processor)) \<le> timestamp r
      \<and> timestamp r < timestamp (hd (buffer passing_processor))
            + windowDurationMs (config passing_processor)) (buffer passing_processor)
     = [reading_at 0 (Some 10), reading_at 500 (Some 10), reading_at 1000 (Some 10)]"
  by (simp add: passing_processor_def sparse_config_def DEFAULT_CONFIG_def reading_at_def)

lemma passing_slid:
  "filter (\<lambda>r. timestamp (hd (buffer passing_processor))
            + windowDurationMs (config passing_processor) / 2 \<le> timestamp r)
      (buffer passing_processor)
     = [reading_at 1000 (Some 10), reading_at 1500 (Some 10)]"
  by (simp add: passing_processor_def sparse_config_def DEFAULT_CONFIG_def reading_at_def)

lemma passing_complete:
  "2 \<le> length (buffer passing_processor)
   \<and> windowDurationMs (config passing_processor)
        \<le> timestamp (last (buffer passing_processor)) - timestamp (hd (buffer passing_processor))"
  by (simp add: passing_processor_def sparse_config_def DEFAULT_CONFIG_def reading_at_def)

lemma passing_summary:
  assumes "processWindow [reading_at 0 (Some 10), reading_at 500 (Some 10), reading_at 1000 (Some 10)]
             = Some w"
  shows "averageSpeed w = 36" and "peakMagnitude w = 9.81" and "sampleCount w = 3"
  using assms by (auto simp add: reading_at_def average_def calculateMagnitude_def Let_def)

lemma stalled_selected:
  "filter (\<lambda>r. timestamp (hd (buffer stalled_processor)) \<le> timestamp r
      \<and> timestamp r < timestamp (hd (buffer stalled_processor))
            + windowDurationMs (config stalled_processor)) (buffer stalled_processor)
     = [reading_at 0 None, reading_at 700 None]"
  by (simp add: stalled_processor_def DEFAULT_CONFIG_def reading_at_def)

lemma stalled_slid:
  "filter (\<lambda>r. timestamp (hd (buffer stalled_processor))
            + windowDurationMs (config stalled_processor) / 2 \<le> timestamp r)
      (buffer stalled_processor)
     = [reading_at 1500 None]"
  by (simp add: stalled_processor_def DEFAULT_CONFIG_def reading_at_def)

lemma stalled_complete:
  "2 \<le> length (buffer stalled_processor)
   \<and> windowDurationMs (config stalled_processor)
        \<le> timestamp (last (buffer stalled_processor)) - timestamp (hd (buffer stalled_processor))"
  by (simp add: stalled_processor_def DEFAULT_CONFIG_def reading_at_def)

text \<open>
  Claim C3. With a callback registered, \<open>checkWindowComplete\<close> completes a window exactly
  when the buffer holds at least two readings, the span from its first to its last reading
  reaches \<open>windowDurationMs\<close> and the selection is not empty; it then slides the buffer and
  hands the window's summary to the callback if and only if the average speed is at least
  \<open>minSpeedThreshold\<close>, the peak magnitude is at least \<open>magnitudeThreshold\<close> and the sample
  count is at least \<open>(windowDurationMs / 1000) * sampleRateHz * 0.5\<close>. When every selected
  reading has a null GPS speed the average speed is 0 and, for a positive
  \<open>minSpeedThreshold\<close>, the window is completed without the callback being invoked.
\<close>

theorem emission_gate:
  assumes "windowCallback s"
  defines "D \<equiv> windowDurationMs (config s)"
  defines "ws \<equiv> timestamp (hd (buffer s))"
  defines "sel \<equiv> filter (\<lambda>r. ws \<le> timestamp r \<and> timestamp r < ws + D) (buffer s)"
  shows "(2 \<le> length (buffer s) \<and> D \<le> timestamp (last (buffer s)) - ws \<and> sel \<noteq> [] \<longrightarrow>
           (\<exists>w. processWindow sel = Some w
              \<and> checkWindowComplete s =
                  (s\<lparr>buffer := filter (\<lambda>r. ws + D / 2 \<le> timestamp r) (buffer s)\<rparr>,
                   Some (sel, w,
                     averageSpeed w \<ge> minSpeedThreshold (config s)
                     \<and> peakMagnitude w \<ge> magnitudeThreshold (config s)
                     \<and> real (sampleCount w) \<ge> (D / 1000) * sampleRateHz (config s) * 0.5))
              \<and> ((\<forall>r\<in>set sel. speed (gps r) = None) \<longrightarrow>
                    averageSpeed w = 0
                    \<and> (0 < minSpeedThreshold (config s) \<longrightarrow>
                         checkWindowComplete s =
                           (s\<lparr>buffer := filter (\<lambda>r. ws + D / 2 \<le> timestamp r) (buffer s)\<rparr>,
                            Some (sel, w, False))))))
     \<and> (\<not> (2 \<le> length (buffer s) \<and> D \<le> timestamp (last (buffer s)) - ws \<and> sel \<noteq> []) \<longrightarrow>
           checkWindowComplete s = (s, None))
     \<and> (\<forall>s' ev. checkWindowComplete s = (s', Some ev) \<longrightarrow>
           selected ev = sel \<and> processWindow sel = Some (summary ev)
           \<and> (invoked ev \<longleftrightarrow>
                averageSpeed (summary ev) \<ge> minSpeedThreshold (config s)
                \<and> peakMagnitude (summary ev) \<ge> magnitudeThreshold (config s)
                \<and> real (sampleCount (summary ev)) \<ge> (D / 1000) * sampleRateHz (config s) * 0.5))"
proof (intro conjI impI allI)
  assume c: "2 \<le> length (buffer s) \<and> D \<le> timestamp (last (buffer s)) - ws \<and> sel \<noteq> []"
  then obtain w where w: "processWindow sel = Some w"
    using processWindow_nonempty by blast
  have cw: "checkWindowComplete s =
      (s\<lparr>buffer := filter (\<lambda>r. ws + D / 2 \<le> timestamp r) (buffer s)\<rparr>,
       Some (sel, w, shouldEmitWindow (config s) w \<and> windowCallback s))"
    using c w unfolding sel_def ws_def D_def by (intro checkWindowComplete_complete) simp_all
  have null: "averageSpeed w = 0" if "\<forall>r\<in>set sel. speed (gps r) = None"
    using processWindow_no_speed [OF w that] .
  have gate: "(shouldEmitWindow (config s) w \<and> windowCallback s) \<longleftrightarrow>
      averageSpeed w \<ge> minSpeedThreshold (config s)
      \<and> peakMagnitude w \<ge> magnitudeThreshold (config s)
      \<and> real (sampleCount w) \<ge> (D / 1000) * sampleRateHz (config s) * 0.5"
    using assms(1) by (simp add: shouldEmitWindow_iff D_def)
  have drop: "\<not> (averageSpeed w \<ge> minSpeedThreshold (config s)
      \<and> peakMagnitude w \<ge> magnitudeThreshold (config s)
      \<and> real (sampleCount w) \<ge> (D / 1000) * sampleRateHz (config s) * 0.5)"
    if "\<forall>r\<in>set sel. speed (gps r) = None" and "0 < minSpeedThreshold (config s)"
    using null [OF that(1)] that(2) by simp
  show "\<exists>w. processWindow sel = Some w
      \<and> checkWindowComplete s =
          (s\<lparr>buffer := filter (\<lambda>r. ws + D / 2 \<le> timestamp r) (buffer s)\<rparr>,
           Some (sel, w,
             averageSpeed w \<ge> minSpeedThreshold (config s)
             \<and> peakMagnitude w \<ge> magnitudeThreshold (config s)
             \<and> real (sampleCount w) \<ge> (D / 1000) * sampleRateHz (config s) * 0.5))
      \<and> ((\<forall>r\<in>set sel. speed (gps r) = None) \<longrightarrow>
            averageSpeed w = 0
            \<and> (0 < minSpeedThreshold (config s) \<longrightarrow>
                 checkWindowComplete s =
                   (s\<lparr>buffer := filter (\<lambda>r. ws + D / 2 \<le> timestamp r) (buffer s)\<rparr>,
                    Some (sel, w, False))))"
    using w cw gate null drop by (intro exI [of _ w]) auto
next
  assume "\<not> (2 \<le> length (buffer s) \<and> D \<le> timestamp (last (buffer s)) - ws \<and> sel \<noteq> [])"
  then show "checkWindowComplete s = (s, None)"
    unfolding sel_def ws_def D_def by (rule checkWindowComplete_incomplete)
next
  fix s' ev
  assume a: "checkWindowComplete s = (s', Some ev)"
  obtain sl w ivk where ev: "ev = (sl, w, ivk)" by (cases ev)
  note cs = checkWindowComplete_Some [OF a [unfolded ev], folded D_def ws_def, folded sel_def]
  show "selected ev = sel" using cs(3) by (simp add: ev selected_def)
  show "processWindow sel = Some (summary ev)" using cs(3,4) by (simp add: ev summary_def)
  show "invoked ev \<longleftrightarrow>
      averageSpeed (summary ev) \<ge> minSpeedThreshold (config s)
      \<and> peakMagnitude (summary ev) \<ge> magnitudeThreshold (config s)
      \<and> real (sampleCount (summary ev)) \<ge> (D / 1000) * sampleRateHz (config s) * 0.5"
    using cs(5) assms(1) by (simp add: ev invoked_def summary_def shouldEmitWindow_iff D_def)
qed

theorem emission_gate_witness:
  "windowCallback passing_processor
   \<and> (\<exists>w. checkWindowComplete passing_processor =
          (passing_processor\<lparr>buffer := [reading_at 1000 (Some 10), reading_at 1500 (Some 10)]\<rparr>,
           Some ([reading_at 0 (Some 10), reading_at 500 (Some 10), reading_at 1000 (Some 10)],
                 w, True))
        \<and> averageSpeed w = 36 \<and> sampleCount w = 3)
   \<and> windowCallback stalled_processor
   \<and> (\<exists>w. checkWindowComplete stalled_processor =
          (stalled_processor\<lparr>buffer := [reading_at 1500 None]\<rparr>,
           Some ([reading_at 0 None, reading_at 700 None], w, False))
        \<and> averageSpeed w = 0)"
proof -
  have cb1: "windowCallback passing_processor" by (simp add: passing_processor_def)
  have cb2: "windowCallback stalled_processor" by (simp add: stalled_processor_def)
  note t1 = emission_gate [OF cb1, unfolded passing_selected passing_slid, THEN conjunct1]
  from t1 passing_complete obtain w
    where w: "processWindow [reading_at 0 (Some 10), reading_at 500 (Some 10), reading_at 1000 (Some 10)]
                = Some w"
      and cw: "checkWindowComplete passing_processor =
          (passing_processor\<lparr>buffer := [reading_at 1000 (Some 10), reading_at 1500 (Some 10)]\<rparr>,
           Some ([reading_at 0 (Some 10), reading_at 500 (Some 10), reading_at 1000 (Some 10)], w,
             averageSpeed w \<ge> minSpeedThreshold (config passing_processor)
             \<and> peakMagnitude w \<ge> magnitudeThreshold (config passing_processor)
             \<and> real (sampleCount w) \<ge> (windowDurationMs (config passing_processor) / 1000)
                  * sampleRateHz (config passing_processor) * 0.5))"
    by blast
  note ps = passing_summary [OF w]
  have "averageSpeed w \<ge> minSpeedThreshold (config passing_processor)
             \<and> peakMagnitude w \<ge> magnitudeThreshold (config passing_processor)
             \<and> real (sampleCount w) \<ge> (windowDurationMs (config passing_processor) / 1000)
                  * sampleRateHz (config passing_processor) * 0.5"
    by (simp add: ps passing_processor_def sparse_config_def DEFAULT_CONFIG_def)
  with cw ps have p: "\<exists>w. checkWindowComplete passing_processor =
          (passing_processor\<lparr>buffer := [reading_at 1000 (Some 10), reading_at 1500 (Some 10)]\<rparr>,
           Some ([reading_at 0 (Some 10), reading_at 500 (Some 10), reading_at 1000 (Some 10)],
                 w, True))
        \<and> averageSpeed w = 36 \<and> sampleCount w = 3"
    by auto
  note t2 = emission_gate [OF cb2, unfolded stalled_selected stalled_slid, THEN conjunct1]
  have nul: "\<forall>r\<in>set [reading_at 0 None, reading_at 700 None]. speed (gps r) = None"
    by (simp add: reading_at_def)
  have thr: "0 < minSpeedThreshold (config stalled_processor)"
    by (simp add: stalled_processor_def DEFAULT_CONFIG_def)
  from t2 stalled_complete nul thr have q: "\<exists>w. checkWindowComplete stalled_processor =
          (stalled_processor\<lparr>buffer := [reading_at 1500 None]\<rparr>,
           Some ([reading_at 0 None, reading_at 700 None], w, False))
        \<and> averageSpeed w = 0"
    by blast
  from cb1 p cb2 q show ?thesis by blast
qed

section \<open>Signal Processor: runs of addReading\<close>

lemma addReading_None:
  assumes "addReading now r s = (s', None)"
  shows "config s' = config s \<and> windowCallback s' = windowCallback s
         \<and> (\<exists>P. buffer s' = filter P (buffer s @ [r]))"
proof -
  from assms have "s' = pruneOldReadings now (s\<lparr>buffer := buffer s @ [r]\<rparr>)"
    by (simp add: addReading_def checkWindowComplete_None)
  then show ?thesis
    by (auto simp add: pruneOldReadings_def Let_def)
qed

lemma addReading_Some:
  assumes ev: "addReading now r s = (s', Some (sel, w, ivk))"
    and srt: "sorted (map timestamp (buffer s @ [r]))"
    and lb: "\<forall>x\<in>set (buffer s @ [r]). b \<le> timestamp x"
  defines "D \<equiv> windowDurationMs (config s)"
  shows "config s' = config s" and "windowCallback s' = windowCallback s"
    and "\<exists>P. buffer s' = filter P (buffer s @ [r])"
    and "sel \<noteq> []" and "0 < D" and "processWindow sel = Some w"
    and "b \<le> startTime w"
    and "\<forall>x\<in>set sel. startTime w \<le> timestamp x \<and> timestamp x < startTime w + D"
    and "\<forall>x\<in>set (buffer s'). startTime w + D / 2 \<le> timestamp x"
    and "startTime w + D / 2 \<le> timestamp r"
    and "ivk = (shouldEmitWindow (config s) w \<and> windowCallback s)"
proof -
  define s1 where "s1 = pruneOldReadings now (s\<lparr>buffer := buffer s @ [r]\<rparr>)"
  define cutoff where "cutoff = now - D * 2"
  have cfg1: "config s1 = config s" and cb1: "windowCallback s1 = windowCallback s"
    and b1: "buffer s1 = filter (\<lambda>x. timestamp x > cutoff) (buffer s @ [r])"
    by (simp_all add: s1_def pruneOldReadings_def Let_def cutoff_def D_def)
  from ev have cw: "checkWindowComplete s1 = (s', Some (sel, w, ivk))"
    by (simp add: addReading_def s1_def)
  define ws where "ws = timestamp (hd (buffer s1))"
  note cs = checkWindowComplete_Some [OF cw, unfolded cfg1 cb1, folded D_def ws_def]
  have ne: "buffer s1 \<noteq> []" by (rule cs(1))
  have span: "D \<le> timestamp (last (buffer s1)) - ws" by (rule cs(2))
  have sel: "sel = filter (\<lambda>r. ws \<le> timestamp r \<and> timestamp r < ws + D) (buffer s1)" by (rule cs(3))
  show pw: "processWindow sel = Some w" by (rule cs(4))
  show "ivk = (shouldEmitWindow (config s) w \<and> windowCallback s)" by (rule cs(5))
  have s': "s' = s1\<lparr>buffer := filter (\<lambda>r. ws + D / 2 \<le> timestamp r) (buffer s1)\<rparr>" by (rule cs(6))
  show "config s' = config s" and "windowCallback s' = windowCallback s"
    by (simp_all add: s' cfg1 cb1)
  show "\<exists>P. buffer s' = filter P (buffer s @ [r])"
    by (rule exI [of _ "\<lambda>x. timestamp x > cutoff \<and> ws + D / 2 \<le> timestamp x"])
       (simp add: s' b1 conj_commute)
  show selne: "sel \<noteq> []" using processWindow_Some(1) [OF pw] .
  then obtain y where y: "y \<in> set sel" by (cases sel) auto
  then have "ws \<le> timestamp y \<and> timestamp y < ws + D" by (simp add: sel)
  then show Dpos: "0 < D" by linarith
  have hdin: "hd (buffer s1) \<in> set (buffer s1)" using ne by simp
  have "sel = hd (buffer s1) # filter (\<lambda>r. ws \<le> timestamp r \<and> timestamp r < ws + D) (tl (buffer s1))"
    using ne Dpos by (cases "buffer s1") (simp_all add: sel ws_def)
  then have "hd sel = hd (buffer s1)" by simp
  then have st: "startTime w = ws"
    using processWindow_Some(2) [OF pw] by (simp add: ws_def)
  have sub: "set (buffer s1) \<subseteq> set (buffer s @ [r])"
    unfolding b1 by (rule filter_is_subset)
  have "hd (buffer s1) \<in> set (buffer s @ [r])" using hdin sub by blast
  then have "b \<le> timestamp (hd (buffer s1))" using lb by blast
  then show "b \<le> startTime w" by (simp add: st ws_def)
  show "\<forall>x\<in>set sel. startTime w \<le> timestamp x \<and> timestamp x < startTime w + D"
    by (simp add: st sel)
  show "\<forall>x\<in>set (buffer s'). startTime w + D / 2 \<le> timestamp x"
    by (simp add: st s')
  have rmax: "\<forall>x\<in>set (buffer s @ [r]). timestamp x \<le> timestamp r"
    using srt by (auto simp add: sorted_append)
  have "last (buffer s1) \<in> set (buffer s @ [r])"
    using last_in_set [OF ne] sub by blast
  then have "timestamp (last (buffer s1)) \<le> timestamp r" using rmax by blast
  then show "startTime w + D / 2 \<le> timestamp r" using span Dpos by (simp add: st)
qed

lemma good_mono: "good D b evs \<Longrightarrow> b' \<le> b \<Longrightarrow> good D b' evs"
  by (cases evs) auto

lemma good_lower: "good D b evs \<Longrightarrow> ev \<in> set evs \<Longrightarrow> 0 < D \<and> b \<le> startTime (summary ev)"
proof (induction evs arbitrary: b)
  case Nil
  then show ?case by simp
next
  case (Cons e rest)
  show ?case
  proof (cases "ev = e")
    case True
    with Cons.prems show ?thesis by simp
  next
    case False
    with Cons.prems have "ev \<in> set rest" and g: "good D (startTime (summary e) + D / 2) rest"
      and "b \<le> startTime (summary e)" and "0 < D"
      by simp_all
    with Cons.IH [OF g] show ?thesis by fastforce
  qed
qed

lemma addReadings_good:
  assumes "sorted (map timestamp (buffer s) @ map (\<lambda>p. timestamp (snd p)) inputs)"
    and "\<forall>t\<in>set (map timestamp (buffer s) @ map (\<lambda>p. timestamp (snd p)) inputs). b \<le> t"
  shows "good (windowDurationMs (config s)) b (addReadings s inputs)"
  using assms
proof (induction inputs arbitrary: s b)
  case Nil
  then show ?case by simp
next
  case (Cons inp rest)
  obtain now r where inp: "inp = (now, r)" by (cases inp)
  obtain s' evo where step: "addReading now r s = (s', evo)" by (cases "addReading now r s")
  let ?D = "windowDurationMs (config s)"
  let ?T = "map (\<lambda>p. timestamp (snd p)) rest"
  define xs where "xs = buffer s @ [r]"
  from Cons.prems(1) have srt: "sorted (map timestamp xs @ ?T)"
    by (simp add: inp xs_def)
  from Cons.prems(2) have lb: "\<forall>t\<in>set (map timestamp xs @ ?T). b \<le> t"
    by (simp add: inp xs_def)
  have srt1: "sorted (map timestamp xs)" and srtT: "sorted ?T"
    and cross: "\<forall>x\<in>set xs. \<forall>t\<in>set ?T. timestamp x \<le> t"
    using srt unfolding sorted_append by auto
  have lb1: "\<forall>x\<in>set xs. b \<le> timestamp x" using lb by auto
  have keep: "sorted (map timestamp (filter P xs) @ ?T)" for P
  proof -
    have "sorted (map timestamp (filter P xs))" using srt1 by (rule sorted_filter)
    moreover have "\<forall>x\<in>set (filter P xs). \<forall>t\<in>set ?T. timestamp x \<le> t"
      using cross by simp
    ultimately show ?thesis using srtT unfolding sorted_append by auto
  qed
  show ?case
  proof (cases evo)
    case None
    from addReading_None [OF step [unfolded None], folded xs_def]
    obtain P where cfg: "config s' = config s" and buf: "buffer s' = filter P xs"
      by blast
    have "sorted (map timestamp (buffer s') @ ?T)" unfolding buf by (rule keep)
    moreover have "\<forall>t\<in>set (map timestamp (buffer s') @ ?T). b \<le> t"
      unfolding buf using lb by auto
    ultimately have "good (windowDurationMs (config s')) b (addReadings s' rest)"
      by (rule Cons.IH)
    then show ?thesis by (simp add: inp step None cfg)
  next
    case (Some ev)
    obtain sel w ivk where ev: "ev = (sel, w, ivk)" by (cases ev)
    note st = addReading_Some [OF step [unfolded Some ev] srt1 [unfolded xs_def] lb1 [unfolded xs_def], folded xs_def]
    from st(3) obtain P where buf: "buffer s' = filter P xs" by blast
    have "sorted (map timestamp (buffer s') @ ?T)" unfolding buf by (rule keep)
    moreover have "\<forall>t\<in>set (map timestamp (buffer s') @ ?T). startTime w + ?D / 2 \<le> t"
    proof -
      have "r \<in> set xs" by (simp add: xs_def)
      then have "\<forall>t\<in>set ?T. timestamp r \<le> t" using cross by blast
      then have "\<forall>t\<in>set ?T. startTime w + ?D / 2 \<le> t" using st(10) by force
      then show ?thesis using st(9) by auto
    qed
    ultimately have "good (windowDurationMs (config s')) (startTime w + ?D / 2) (addReadings s' rest)"
      by (rule Cons.IH)
    then show ?thesis
      using st(4-8) by (simp add: inp step Some ev st(1) selected_def summary_def)
  qed
qed

lemma addReadings_good_fresh:
  assumes "buffer s = []" and "sorted (map (\<lambda>p. timestamp (snd p)) inputs)"
  shows "\<exists>b. good (windowDurationMs (config s)) b (addReadings s inputs)"
proof (cases inputs)
  case Nil
  then show ?thesis by simp
next
  case (Cons inp rest)
  have "good (windowDurationMs (config s)) (timestamp (snd inp)) (addReadings s inputs)"
    using assms by (intro addReadings_good) (auto simp add: Cons)
  then show ?thesis ..
qed

lemma good_member:
  assumes "good D b evs" and "ev \<in> set evs"
  shows "processWindow (selected ev) = Some (summary ev)"
    and "\<forall>x\<in>set (selected ev). startTime (summary ev) \<le> timestamp x
            \<and> timestamp x < startTime (summary ev) + D"
  using assms
proof (induction evs arbitrary: b)
  case Nil
  { case 1 then show ?case by simp }
  { case 2 then show ?case by simp }
next
  case (Cons e rest)
  { case 1 with Cons.IH(1) show ?case by auto }
  { case 2 with Cons.IH(2) show ?case by auto }
qed

lemma good_starts_increasing:
  "good D b evs \<Longrightarrow> sorted_wrt (\<lambda>e f. startTime (summary e) < startTime (summary f)) evs"
proof (induction evs arbitrary: b)
  case Nil
  then show ?case by simp
next
  case (Cons e rest)
  then have g: "good D (startTime (summary e) + D / 2) rest" and "0 < D" by simp_all
  have "startTime (summary e) < startTime (summary f)" if "f \<in> set rest" for f
    using good_lower [OF g that] by linarith
  with Cons.IH [OF g] show ?case by simp
qed

lemma starts_increasing_distinct:
  "sorted_wrt (\<lambda>v w. startTime v < startTime w) ws
     \<Longrightarrow> distinct (map (\<lambda>w. (startTime w, endTime w)) ws)"
  by (induction ws) auto

lemma good_far:
  assumes "good D b (e1 # e2 # rest)" and "f \<in> set rest" and "x \<in> set (selected e1)"
  shows "x \<notin> set (selected f)"
proof
  assume xf: "x \<in> set (selected f)"
  from assms(1) have g2: "good D (startTime (summary e2) + D / 2) rest"
    and s12: "startTime (summary e1) + D / 2 \<le> startTime (summary e2)"
    and x1: "timestamp x < startTime (summary e1) + D"
    using assms(3) by simp_all
  from good_lower [OF g2 assms(2)] have "startTime (summary e2) + D / 2 \<le> startTime (summary f)"
    by simp
  moreover from good_member(2) [OF g2 assms(2)] xf have "startTime (summary f) \<le> timestamp x"
    by blast
  ultimately show False using s12 x1 by simp
qed

lemma good_count:
  "good D b evs \<Longrightarrow> length (filter (\<lambda>ev. x \<in> set (selected ev)) evs) \<le> 2"
proof (induction evs arbitrary: b)
  case Nil
  then show ?case by simp
next
  case (Cons e1 rest)
  then have g: "good D (startTime (summary e1) + D / 2) rest" by simp
  show ?case
  proof (cases "x \<in> set (selected e1)")
    case False
    with Cons.IH [OF g] show ?thesis by simp
  next
    case True
    show ?thesis
    proof (cases rest)
      case Nil
      then show ?thesis by simp
    next
      case (Cons e2 rest2)
      have "filter (\<lambda>ev. x \<in> set (selected ev)) rest2 = []"
        unfolding filter_empty_conv
        using good_far [OF Cons.prems [unfolded Cons] _ True] by blast
      then show ?thesis by (simp add: Cons)
    qed
  qed
qed

lemma good_consecutive:
  "good D b evs \<Longrightarrow> i < j \<Longrightarrow> j < length evs \<Longrightarrow> x \<in> set (selected (evs ! i))
     \<Longrightarrow> x \<in> set (selected (evs ! j)) \<Longrightarrow> j = Suc i"
proof (induction evs arbitrary: b i j)
  case Nil
  then show ?case by simp
next
  case (Cons e1 rest)
  from Cons.prems(1) have g: "good D (startTime (summary e1) + D / 2) rest" by simp
  from Cons.prems(2) obtain j' where j: "j = Suc j'" by (cases j) auto
  show ?case
  proof (cases i)
    case 0
    show ?thesis
    proof (cases j')
      case 0
      with j \<open>i = 0\<close> show ?thesis by simp
    next
      case (Suc k)
      with Cons.prems(3) j obtain e2 rest2 where rest: "rest = e2 # rest2"
        by (cases rest) auto
      have "k < length rest2" using Cons.prems(3) j Suc rest by simp
      then have "rest2 ! k \<in> set rest2" by simp
      moreover have "x \<in> set (selected e1)" using Cons.prems(4) \<open>i = 0\<close> by simp
      ultimately have "x \<notin> set (selected (rest2 ! k))"
        using good_far [OF Cons.prems(1) [unfolded rest]] by blast
      with Cons.prems(5) j Suc rest show ?thesis by simp
    qed
  next
    case (Suc i')
    have "j' = Suc i'"
      using Cons.prems(2-5) by (intro Cons.IH [OF g]) (simp_all add: j Suc)
    then show ?thesis by (simp add: j Suc)
  qed
qed

lemmas run_defs = addReading_def pruneOldReadings_def checkWindowComplete_def shouldEmitWindow_def
  average_def calculateMagnitude_def calculateRMS_def reading_at_def sparse_config_def
  sparse_processor_def sparse_ride_def DEFAULT_CONFIG_def setWindowCallback_def constructor_def
  emitted_def summary_def selected_def Let_def

lemma sparse_ride_selected:
  "map selected (addReadings sparse_processor sparse_ride)
     = [[reading_at 0 (Some 10), reading_at 700 (Some 10)],
        [reading_at 1500 (Some 10), reading_at 2300 (Some 10)],
        [reading_at 2300 (Some 10), reading_at 3100 (Some 10)]]"
  by (simp add: run_defs)

lemma sparse_ride_emitted:
  "map (\<lambda>w. (startTime w, endTime w)) (emitted (addReadings sparse_processor sparse_ride))
     = [(0, 700), (1500, 2300), (2300, 3100)]"
  by (simp add: run_defs)

lemma count_selected:
  "length (filter (\<lambda>ev. r \<in> set (selected ev)) evs)
     = length (filter (\<lambda>sel. r \<in> set sel) (map selected evs))"
  by (simp add: filter_map comp_def)

lemma sparse_ride_sorted: "sorted_wrt (<) (map (\<lambda>p. timestamp (snd p)) sparse_ride)"
  by (simp add: sparse_ride_def reading_at_def)

lemma sparse_processor_fresh: "buffer sparse_processor = []"
  by (simp add: sparse_processor_def setWindowCallback_def constructor_def)

text \<open>
  Claim C5. For every sequence of \<open>addReading\<close> calls on a processor with an empty buffer
  whose readings have strictly increasing timestamps, whatever the clock reads at each
  call, every window handed to the callback has a sample count of at least 1, and no two
  windows handed to the callback have the same pair of start time and end time.
\<close>

theorem emitted_nonempty_distinct:
  assumes "buffer s = []" and "sorted_wrt (<) (map (\<lambda>p. timestamp (snd p)) inputs)"
  shows "(\<forall>w\<in>set (emitted (addReadings s inputs)). sampleCount w \<ge> 1)
         \<and> distinct (map (\<lambda>w. (startTime w, endTime w)) (emitted (addReadings s inputs)))"
proof -
  from assms(2) have "sorted (map (\<lambda>p. timestamp (snd p)) inputs)"
    by (rule strict_sorted_imp_sorted)
  with assms(1) obtain b where g: "good (windowDurationMs (config s)) b (addReadings s inputs)"
    using addReadings_good_fresh by blast
  have "sampleCount w \<ge> 1" if "w \<in> set (emitted (addReadings s inputs))" for w
  proof -
    from that obtain ev where ev: "ev \<in> set (addReadings s inputs)" and w: "w = summary ev"
      by (auto simp add: emitted_def)
    from good_member(1) [OF g ev] have "processWindow (selected ev) = Some w" by (simp add: w)
    from processWindow_Some(1,4) [OF this] show ?thesis by (cases "selected ev") simp_all
  qed
  moreover have "sorted_wrt (\<lambda>v w. startTime v < startTime w) (emitted (addReadings s inputs))"
    unfolding emitted_def sorted_wrt_map
    by (rule sorted_wrt_filter) (rule good_starts_increasing [OF g])
  ultimately show ?thesis
    using starts_increasing_distinct by blast
qed

theorem emitted_nonempty_distinct_witness:
  "buffer sparse_processor = []
   \<and> sorted_wrt (<) (map (\<lambda>p. timestamp (snd p)) sparse_ride)
   \<and> map (\<lambda>w. (startTime w, endTime w)) (emitted (addReadings sparse_processor sparse_ride))
       = [(0, 700), (1500, 2300), (2300, 3100)]
   \<and> list_all (\<lambda>w. sampleCount w \<ge> 1) (emitted (addReadings sparse_processor sparse_ride))
   \<and> distinct (map (\<lambda>w. (startTime w, endTime w))
        (emitted (addReadings sparse_processor sparse_ride)))"
  using emitted_nonempty_distinct [OF sparse_processor_fresh sparse_ride_sorted]
    sparse_processor_fresh sparse_ride_sorted sparse_ride_emitted
  unfolding list_all_iff by blast

text \<open>
  Claim C6, as stated: every reading fed to the processor is selected in exactly two
  consecutive completed windows. It fails for the readings of the first half of a window:
  in the ride at 0, 700, 1500, 2300, 3100 and 3800 ms the reading at 0 ms is selected once,
  in the window that starts at 0 ms, and the slide to 750 ms then drops it from the buffer.
\<close>

theorem reading_in_one_window_only:
  "reading_at 0 (Some 10) \<in> set (map snd sparse_ride)
   \<and> length (filter (\<lambda>ev. reading_at 0 (Some 10) \<in> set (selected ev))
        (addReadings sparse_processor sparse_ride)) = 1"
  unfolding count_selected sparse_ride_selected
  by (simp add: sparse_ride_def reading_at_def)

text \<open>
  Claim C6, amended. For readings fed in order of non-decreasing timestamps to a processor
  with an empty buffer, every reading is selected in at most two completed windows, and
  two completed windows that both select it are consecutive.
\<close>

theorem reading_in_at_most_two_windows:
  assumes "buffer s = []" and "sorted (map (\<lambda>p. timestamp (snd p)) inputs)"
  shows "length (filter (\<lambda>ev. r \<in> set (selected ev)) (addReadings s inputs)) \<le> 2
         \<and> (\<forall>i j. i < j \<and> j < length (addReadings s inputs)
               \<and> r \<in> set (selected (addReadings s inputs ! i))
               \<and> r \<in> set (selected (addReadings s inputs ! j)) \<longrightarrow> j = Suc i)"
proof -
  from assms obtain b where g: "good (windowDurationMs (config s)) b (addReadings s inputs)"
    using addReadings_good_fresh by blast
  show ?thesis
    using good_count [OF g] good_consecutive [OF g] by blast
qed

theorem reading_in_at_most_two_windows_witness:
  "buffer sparse_processor = []
   \<and> sorted (map (\<lambda>p. timestamp (snd p)) sparse_ride)
   \<and> length (addReadings sparse_processor sparse_ride) = 3
   \<and> reading_at 2300 (Some 10) \<notin> set (selected (addReadings sparse_processor sparse_ride ! 0))
   \<and> reading_at 2300 (Some 10) \<in> set (selected (addReadings sparse_processor sparse_ride ! 1))
   \<and> reading_at 2300 (Some 10) \<in> set (selected (addReadings sparse_processor sparse_ride ! 2))
   \<and> length (filter (\<lambda>ev. reading_at 2300 (Some 10) \<in> set (selected ev))
        (addReadings sparse_processor sparse_ride)) \<le> 2"
proof -
  let ?evs = "addReadings sparse_processor sparse_ride"
  have srt: "sorted (map (\<lambda>p. timestamp (snd p)) sparse_ride)"
    using sparse_ride_sorted by (rule strict_sorted_imp_sorted)
  have len: "length ?evs = 3"
    using arg_cong [OF sparse_ride_selected, of length] by simp
  have nth: "selected (?evs ! k) = map selected ?evs ! k" if "k < 3" for k
    using that len by simp
  have e0: "selected (?evs ! 0) = [reading_at 0 (Some 10), reading_at 700 (Some 10)]"
    using nth [of 0] by (simp add: sparse_ride_selected)
  have e1: "selected (?evs ! 1) = [reading_at 1500 (Some 10), reading_at 2300 (Some 10)]"
    using nth [of 1] by (simp add: sparse_ride_selected)
  have e2: "selected (?evs ! 2) = [reading_at 2300 (Some 10), reading_at 3100 (Some 10)]"
    using nth [of 2] by (simp add: sparse_ride_selected)
  have m: "reading_at 2300 (Some 10) \<notin> set (selected (?evs ! 0))"
    "reading_at 2300 (Some 10) \<in> set (selected (?evs ! 1))"
    "reading_at 2300 (Some 10) \<in> set (selected (?evs ! 2))"
    unfolding e0 e1 e2 by (simp_all add: reading_at_def)
  from reading_in_at_most_two_windows [OF sparse_processor_fresh srt, of "reading_at 2300 (Some 10)"]
    sparse_processor_fresh srt len m
  show ?thesis by blast
qed

section \<open>Root mean square\<close>

lemma foldl_add_squares: "foldl (\<lambda>sum v. sum + v\<^sup>2) a vs = a + (\<Sum>v\<leftarrow>vs. v\<^sup>2)"
  for a :: real
  by (induction vs arbitrary: a) simp_all

text \<open>
  Claim C9. \<open>calculateRMS\<close> of the empty list is 0, \<open>calculateRMS [3, 4]\<close> is the square root
  of 12.5, and on every non-empty list the result is the square root of the mean of the
  squares of the elements.
\<close>

theorem calculateRMS_spec:
  "calculateRMS [] = 0
   \<and> calculateRMS [3, 4] = sqrt 12.5
   \<and> (vs \<noteq> [] \<longrightarrow> calculateRMS vs = sqrt ((\<Sum>v\<leftarrow>vs. v\<^sup>2) / real (length vs)))"
  by (simp add: calculateRMS_def foldl_add_squares)

theorem calculateRMS_spec_witness:
  "[1, 2, 2 :: real] \<noteq> [] \<and> calculateRMS [1, 2, 2] = sqrt 3"
  using calculateRMS_spec [of "[1, 2, 2]"] by simp

section \<open>The detection gate\<close>

text \<open>
  Claim C10. A detection is handed to \<open>saveDetection\<close> only when the classifier result is
  not \<open>normal\<close> and its confidence is at least the configured threshold, which is 0.7; a
  result with a confidence below the threshold, whatever its defect type, is discarded,
  and so is a \<open>normal\<close> result.
\<close>

theorem detection_gate:
  "(handleProcessedWindow sid uid remote window = Some d \<longrightarrow>
      defectTypeR (classifyWithML remote window) \<noteq> normal
      \<and> confidenceR (classifyWithML remote window) \<ge> confidenceThreshold DEFAULT_CONFIG
      \<and> defectTypeD d = defectTypeR (classifyWithML remote window)
      \<and> confidenceD d = confidenceR (classifyWithML remote window))
   \<and> (confidenceR (classifyWithML remote window) < confidenceThreshold DEFAULT_CONFIG \<longrightarrow>
        handleProcessedWindow sid uid remote window = None)
   \<and> (defectTypeR (classifyWithML remote window) = normal \<longrightarrow>
        handleProcessedWindow sid uid remote window = None)
   \<and> confidenceThreshold DEFAULT_CONFIG = 0.7"
  by (auto simp add: handleProcessedWindow_def Let_def DEFAULT_CONFIG_def split: option.splits if_splits)

theorem detection_gate_witness:
  "defectTypeR (classifyWithML (Some weak_pothole) window_90) = pothole
   \<and> confidenceR (classifyWithML (Some weak_pothole) window_90) < confidenceThreshold DEFAULT_CONFIG
   \<and> handleProcessedWindow (Some ''session'') ''alice'' (Some weak_pothole) window_90 = None
   \<and> handleProcessedWindow (Some ''session'') ''alice'' None window_90 = None"
proof -
  have "confidenceR (classifyWithML (Some weak_pothole) window_90) < confidenceThreshold DEFAULT_CONFIG"
    by (simp add: classifyWithML_def weak_pothole_def DEFAULT_CONFIG_def)
  moreover have "confidenceR (classifyWithML None window_90) < confidenceThreshold DEFAULT_CONFIG"
    by (simp add: classifyWithML_def classifyLocally_def window_90_def DEFAULT_CONFIG_def)
  ultimately show ?thesis
    using detection_gate [of "Some ''session''" "''alice''" "Some weak_pothole" window_90]
      detection_gate [of "Some ''session''" "''alice''" None window_90]
    by (simp add: classifyWithML_def weak_pothole_def classifyLocally_def window_90_def
        DEFAULT_CONFIG_def)
qed

section \<open>Geohash encoding\<close>

lemma geohashBody_cases:
  assumes "geohashInv vars"
  shows "(bitOf vars = 4 \<and> bitOf (geohashBody lat lng vars) = 0
            \<and> (\<exists>c. geohashOf (geohashBody lat lng vars) = geohashOf vars @ [c]))
         \<or> (bitOf vars < 4 \<and> bitOf (geohashBody lat lng vars) = bitOf vars + 1
            \<and> geohashOf (geohashBody lat lng vars) = geohashOf vars)"
    and "geohashInv (geohashBody lat lng vars)"
proof -
  obtain i b e g a1 a2 o1 o2 where vars: "vars = (i, b, e, g, a1, a2, o1, o2)"
    by (cases vars) auto
  from assms have b: "b < 5" and i: "i < 2 ^ b"
    by (simp_all add: geohashInv_def vars bitOf_def idxOf_def)
  have i2: "i * 2 + 1 < 2 ^ (b + 1)" "i * 2 < 2 ^ (b + 1)" using i by simp_all
  have i32: "b = 4 \<Longrightarrow> i * 2 + 1 < 32 \<and> i * 2 < 32" using i by simp
  have len: "length BASE32 = 32" by (simp add: BASE32_def)
  show "(bitOf vars = 4 \<and> bitOf (geohashBody lat lng vars) = 0
            \<and> (\<exists>c. geohashOf (geohashBody lat lng vars) = geohashOf vars @ [c]))
         \<or> (bitOf vars < 4 \<and> bitOf (geohashBody lat lng vars) = bitOf vars + 1
            \<and> geohashOf (geohashBody lat lng vars) = geohashOf vars)"
    using b i32
    by (cases "b = 4")
       (auto simp add: vars geohashBody_def bitOf_def geohashOf_def charAt_def len Let_def)
  show "geohashInv (geohashBody lat lng vars)"
    using b i2
    by (auto simp add: vars geohashBody_def geohashInv_def bitOf_def idxOf_def Let_def)
qed

lemma geohashLoop_total:
  assumes "geohashInv vars"
  shows "\<exists>s. geohashLoop lat lng q vars = Some s
            \<and> length s = max q (length (geohashOf vars))
            \<and> take (length (geohashOf vars)) s = geohashOf vars"
  using assms
proof (induction "5 * (q - length (geohashOf vars)) - bitOf vars" arbitrary: vars rule: less_induct)
  case less
  show ?case
  proof (cases "length (geohashOf vars) < q")
    case False
    then show ?thesis by (subst geohashLoop.simps) (simp add: max_def)
  next
    case True
    let ?v = "geohashBody lat lng vars"
    note bc = geohashBody_cases [OF less.prems, of lat lng]
    have dec: "5 * (q - length (geohashOf ?v)) - bitOf ?v < 5 * (q - length (geohashOf vars)) - bitOf vars"
      using bc(1) True by auto
    from less.hyps [OF dec bc(2)] obtain s where s: "geohashLoop lat lng q ?v = Some s"
      and ls: "length s = max q (length (geohashOf ?v))"
      and ts: "take (length (geohashOf ?v)) s = geohashOf ?v"
      by blast
    have unf: "geohashLoop lat lng q vars = geohashLoop lat lng q ?v"
      using True by (subst geohashLoop.simps) simp
    have "length (geohashOf ?v) \<le> q" using bc(1) True by auto
    then have l: "length s = max q (length (geohashOf vars))" using ls True by simp
    have "take (length (geohashOf vars)) s = geohashOf vars"
    proof -
      from bc(1) obtain t where t: "geohashOf ?v = geohashOf vars @ t" by auto
      have "take (length (geohashOf vars)) s
              = take (length (geohashOf vars)) (take (length (geohashOf ?v)) s)"
        by (simp add: t min_def)
      also have "\<dots> = take (length (geohashOf vars)) (geohashOf ?v)" by (simp only: ts)
      also have "\<dots> = geohashOf vars" by (simp add: t)
      finally show ?thesis .
    qed
    with s l unf show ?thesis by simp
  qed
qed

lemma geohashLoop_prefix:
  assumes "geohashInv vars" and "p \<le> q"
    and "length (geohashOf vars) < p \<or> (length (geohashOf vars) = p \<and> bitOf vars = 0)"
  shows "geohashLoop lat lng p vars = map_option (take p) (geohashLoop lat lng q vars)"
  using assms(1,3)
proof (induction "5 * (p - length (geohashOf vars)) - bitOf vars" arbitrary: vars rule: less_induct)
  case less
  show ?case
  proof (cases "length (geohashOf vars) < p")
    case False
    with less.prems(2) have eq: "length (geohashOf vars) = p" by simp
    from geohashLoop_total [OF less.prems(1), of lat lng q] obtain s
      where "geohashLoop lat lng q vars = Some s" and "take (length (geohashOf vars)) s = geohashOf vars"
      by blast
    moreover have "geohashLoop lat lng p vars = Some (geohashOf vars)"
      using eq by (subst geohashLoop.simps) simp
    ultimately show ?thesis by (simp add: eq)
  next
    case True
    let ?v = "geohashBody lat lng vars"
    note bc = geohashBody_cases [OF less.prems(1), of lat lng]
    have dec: "5 * (p - length (geohashOf ?v)) - bitOf ?v < 5 * (p - length (geohashOf vars)) - bitOf vars"
      using bc(1) True by auto
    have nxt: "length (geohashOf ?v) < p \<or> (length (geohashOf ?v) = p \<and> bitOf ?v = 0)"
      using bc(1) True by auto
    have "geohashLoop lat lng p vars = geohashLoop lat lng p ?v"
      using True by (subst geohashLoop.simps) simp
    moreover have "geohashLoop lat lng q vars = geohashLoop lat lng q ?v"
      using True assms(2) by (subst geohashLoop.simps) simp
    ultimately show ?thesis using less.hyps [OF dec bc(2) nxt] by simp
  qed
qed

lemma geohashInv_init: "geohashInv (0, 0, True, [], -90, 90, -180, 180)"
  by (simp add: geohashInv_def bitOf_def idxOf_def)

lemma encodeGeohash_total: "\<exists>s. encodeGeohash lat lng p = Some s \<and> length s = p"
  using geohashLoop_total [OF geohashInv_init, of lat lng p]
  by (simp add: encodeGeohash_def geohashOf_def)

lemma encodeGeohash_origin: "encodeGeohash 0 0 7 = Some ''s000000''"
  by (simp add: encodeGeohash_def geohashLoop.simps geohashBody_def geohashOf_def charAt_def BASE32_def Let_def)

lemma encodeGeohash_delhi: "encodeGeohash 28.6139 77.2090 7 = Some ''ttnfucj''"
  by (simp add: encodeGeohash_def geohashLoop.simps geohashBody_def geohashOf_def charAt_def BASE32_def Let_def)

text \<open>
  Claim C8. Geohash encoding is a function of latitude, longitude and precision that
  always returns, and it is prefix-stable: for every latitude and longitude the encoding at
  precision 5 is the first 5 characters of the encoding at precision 7.
\<close>

theorem encodeGeohash_prefix_stable:
  "encodeGeohash lat lng 5 = map_option (take 5) (encodeGeohash lat lng 7)
   \<and> (\<exists>s. encodeGeohash lat lng 7 = Some s \<and> length s = 7)"
  using geohashLoop_prefix [OF geohashInv_init, of 5 7 lat lng] encodeGeohash_total [of lat lng 7]
  by (simp add: encodeGeohash_def geohashOf_def bitOf_def)

theorem encodeGeohash_prefix_stable_witness:
  "encodeGeohash 28.6139 77.2090 7 = Some ''ttnfucj''
   \<and> encodeGeohash 28.6139 77.2090 5 = Some ''ttnfu''"
  using encodeGeohash_prefix_stable [of "28.6139" "77.2090"] encodeGeohash_delhi by simp

section \<open>Aggregation Engine\<close>

lemma find_filter_enumerate:
  "List.find P (filter Q (enumerate n xs)) = Some (i, x) \<Longrightarrow>
     n \<le> i \<and> i < n + length xs \<and> xs ! (i - n) = x \<and> Q (i, x) \<and> P (i, x)
     \<and> (\<forall>j. n \<le> j \<and> j < i \<longrightarrow> \<not> (Q (j, xs ! (j - n)) \<and> P (j, xs ! (j - n))))"
proof (induction xs arbitrary: n)
  case Nil
  then show ?case by simp
next
  case (Cons y ys)
  show ?case
  proof (cases "Q (n, y) \<and> P (n, y)")
    case True
    with Cons.prems have "i = n" "x = y" by simp_all
    with True show ?thesis by auto
  next
    case False
    with Cons.prems have "List.find P (filter Q (enumerate (Suc n) ys)) = Some (i, x)"
      by (auto split: if_splits)
    from Cons.IH [OF this] have ih: "Suc n \<le> i" "i < Suc n + length ys" "ys ! (i - Suc n) = x"
      "Q (i, x)" "P (i, x)"
      "\<And>j. Suc n \<le> j \<Longrightarrow> j < i \<Longrightarrow> \<not> (Q (j, ys ! (j - Suc n)) \<and> P (j, ys ! (j - Suc n)))"
      by auto
    have "\<not> (Q (j, (y # ys) ! (j - n)) \<and> P (j, (y # ys) ! (j - n)))" if "n \<le> j" "j < i" for j
    proof (cases "j = n")
      case True
      with False show ?thesis by simp
    next
      case False
      with that have "Suc n \<le> j" by simp
      from ih(6) [OF this that(2)] show ?thesis
        using \<open>Suc n \<le> j\<close> by (simp add: Suc_diff_le)
    qed
    moreover have "(y # ys) ! (i - n) = x" using ih(1,3) by (simp add: Suc_diff_le)
    ultimately show ?thesis using ih(1,2,4,5) by simp
  qed
qed

lemma enumerate_snd_mem: "p \<in> set (enumerate n xs) \<Longrightarrow> snd p \<in> set xs"
proof -
  assume "p \<in> set (enumerate n xs)"
  then have "snd p \<in> set (map snd (enumerate n xs))" by (metis imageI set_map)
  then show ?thesis by simp
qed

lemma matchedReport_Some:
  assumes "matchedReport store gh det = Some (ref, existing)"
  shows "ref < length store" and "store ! ref = existing"
    and "defectType existing = defectTypeD det"
    and "take 5 gh \<le> geohash existing \<and> geohash existing \<le> take 5 gh @ uf8ff"
    and "withinRadius (latitude (locationD det)) (longitude (locationD det)) existing"
    and "\<forall>j<ref. take 5 gh \<le> geohash (store ! j) \<and> geohash (store ! j) \<le> take 5 gh @ uf8ff
            \<and> defectType (store ! j) = defectTypeD det
          \<longrightarrow> \<not> withinRadius (latitude (locationD det)) (longitude (locationD det)) (store ! j)"
  using find_filter_enumerate [OF assms [unfolded matchedReport_def nearbyReports_def]]
  by auto

lemma matchedReport_None:
  assumes "\<forall>r\<in>set store. defectType r = defectTypeD det
             \<longrightarrow> \<not> withinRadius (latitude (locationD det)) (longitude (locationD det)) r"
  shows "matchedReport store gh det = None"
  unfolding matchedReport_def nearbyReports_def find_None_iff
  using assms enumerate_snd_mem [of _ 0 store] by (auto simp add: case_prod_unfold)

lemma withinRadius_delhi: "withinRadius 28.6139 77.2090 delhi_report"
  by (simp add: withinRadius_def calculateDistance_def Math_atan2_def AGGREGATION_RADIUS_def delhi_report_def)

lemma delhi_prefix: "take 5 ''ttnfucj'' \<le> ''ttnfucj'' \<and> ''ttnfucj'' \<le> take 5 ''ttnfucj'' @ uf8ff"
  by (simp add: uf8ff_def less_eq_char_def less_char_def)

lemma matchedReport_delhi:
  "matchedReport [delhi_report] ''ttnfucj'' (delhi_detection ''bob'' 6 2000) = Some (0, delhi_report)"
  using withinRadius_delhi delhi_prefix
  by (simp add: matchedReport_def nearbyReports_def delhi_detection_def)
     (simp add: delhi_report_def)

lemma far_report_outside: "\<not> withinRadius 0 0 origin_far_report"
proof -
  have "calculateDistance 0 0 0 180 = Some (6371000 * pi)"
    by (simp add: calculateDistance_def Math_atan2_def)
  moreover have "\<not> 6371000 * pi \<le> (25 :: real)" using pi_ge_two by simp
  ultimately show ?thesis
    by (simp add: withinRadius_def origin_far_report_def AGGREGATION_RADIUS_def)
qed

lemma find_filter_enumerate_first:
  "j < length xs \<Longrightarrow> Q (n + j, xs ! j) \<Longrightarrow> P (n + j, xs ! j)
     \<Longrightarrow> \<forall>i<j. \<not> (Q (n + i, xs ! i) \<and> P (n + i, xs ! i))
     \<Longrightarrow> List.find P (filter Q (enumerate n xs)) = Some (n + j, xs ! j)"
proof (induction xs arbitrary: n j)
  case Nil
  then show ?case by simp
next
  case (Cons y ys)
  show ?case
  proof (cases j)
    case 0
    with Cons.prems show ?thesis by simp
  next
    case (Suc k)
    from Cons.prems(4) Suc have first: "\<not> (Q (n, y) \<and> P (n, y))" by force
    have k: "k < length ys" using Cons.prems(1) Suc by simp
    have q: "Q (Suc n + k, ys ! k)" and p: "P (Suc n + k, ys ! k)"
      using Cons.prems(2,3) Suc by simp_all
    have rest: "\<forall>i<k. \<not> (Q (Suc n + i, ys ! i) \<and> P (Suc n + i, ys ! i))"
    proof (intro allI impI)
      fix i assume "i < k"
      then have "Suc i < j" using Suc by simp
      with Cons.prems(4) have "\<not> (Q (n + Suc i, (y # ys) ! Suc i) \<and> P (n + Suc i, (y # ys) ! Suc i))"
        by blast
      then show "\<not> (Q (Suc n + i, ys ! i) \<and> P (Suc n + i, ys ! i))" by simp
    qed
    from Cons.IH [OF k q p rest] first show ?thesis by (auto simp add: Suc)
  qed
qed

lemma matchedReport_first:
  assumes "ref < length store"
    and "take 5 gh \<le> geohash (store ! ref) \<and> geohash (store ! ref) \<le> take 5 gh @ uf8ff"
    and "defectType (store ! ref) = defectTypeD det"
    and "withinRadius (latitude (locationD det)) (longitude (locationD det)) (store ! ref)"
    and "\<forall>j<ref. take 5 gh \<le> geohash (store ! j) \<and> geohash (store ! j) \<le> take 5 gh @ uf8ff
            \<and> defectType (store ! j) = defectTypeD det
          \<longrightarrow> \<not> withinRadius (latitude (locationD det)) (longitude (locationD det)) (store ! j)"
  shows "matchedReport store gh det = Some (ref, store ! ref)"
  unfolding matchedReport_def nearbyReports_def
  using find_filter_enumerate_first [of ref store _ 0, OF assms(1)] assms(2-5)
  by simp

lemma calculateDistance_meridian:
  assumes "lat1 \<le> lat2" and "lat2 - lat1 < 180"
  shows "calculateDistance lat1 lon lat2 lon = Some (6371000 * ((lat2 - lat1) * pi / 180))"
proof -
  define th where "th = (lat2 - lat1) * pi / 360"
  have th0: "0 \<le> th" using assms(1) by (simp add: th_def)
  have "(lat2 - lat1) * pi < 180 * pi" using assms(2) by simp
  then have th1: "th < pi / 2" by (simp add: th_def)
  have s: "0 \<le> sin th" using th0 th1 by (intro sin_ge_zero) simp_all
  have c: "0 < cos th" using th0 th1 by (intro cos_gt_zero_pi) simp_all
  have one: "1 - sin th * sin th = cos th * cos th"
    using sin_cos_squared_add [of th] by (simp add: power2_eq_square algebra_simps)
  have at: "arctan (sin th / cos th) = th"
    using arctan_tan [of th] th0 th1 by (simp add: tan_def)
  have half: "(lat2 - lat1) * pi / 180 / 2 = th" by (simp add: th_def)
  have zero: "(lon - lon) * pi / 180 / 2 = 0" by simp
  have a: "sin th * sin th + cos (lat1 * pi / 180) * cos (lat2 * pi / 180) * sin 0 * sin 0
             = sin th * sin th" by simp
  have m: "Math_atan2 (sqrt (sin th * sin th)) (sqrt (1 - sin th * sin th)) = th"
    using s c at by (simp add: one Math_atan2_def)
  have ok: "\<not> (sin th * sin th < 0 \<or> 1 - sin th * sin th < 0)"
    by (simp add: one)
  have "calculateDistance lat1 lon lat2 lon = Some (6371000 * (2 * th))"
    unfolding calculateDistance_def Let_def half zero a m using ok by (simp only: if_False)
  then show ?thesis by (simp add: th_def)
qed

lemma near_miss_outside: "\<not> withinRadius 28.6139 77.2090 near_miss_report"
proof -
  have "calculateDistance 28.6139 77.2090 28.6149 77.2090
          = Some (6371000 * ((28.6149 - 28.6139) * pi / 180))"
    by (rule calculateDistance_meridian) simp_all
  moreover have "\<not> 6371000 * ((28.6149 - 28.6139) * pi / 180) \<le> (25 :: real)"
    using pi_ge_two by simp
  ultimately show ?thesis
    by (simp add: withinRadius_def near_miss_report_def AGGREGATION_RADIUS_def)
qed

lemma less_two_cases: "(\<forall>j<(2::nat). P j) \<longleftrightarrow> P 0 \<and> P 1"
  by (auto simp add: less_2_cases_iff)

text \<open>
  Claim C1. For a detection that is not \<open>normal\<close>, the matched report is exactly the first
  document, in query order, that lies in the geohash prefix range, has the detection's
  defect type and is within 25 metres by haversine distance: whenever such a document
  exists it is found. That report is updated in place: the user id is appended to
  \<open>uniqueUsers\<close> only if it is not there yet, \<open>reportCount\<close> grows by one, \<open>averageSeverity\<close>
  becomes the running mean, \<open>lastReported\<close> becomes the detection's timestamp, and
  \<open>credibilityScore\<close> becomes
  \<open>min 1 (0.3 + length uniqueUsers * 0.15 + log10 reportCount * 0.2)\<close>, which is at most 1;
  every other document is left as it was.
\<close>

theorem aggregateDetection_update:
  fixes store :: "AggregatedReport list"
  assumes "defectTypeD det \<noteq> normal"
    and "encodeGeohash (latitude (locationD det)) (longitude (locationD det)) 7 = Some gh"
  defines "near \<equiv> \<lambda>j. take 5 gh \<le> geohash (store ! j) \<and> geohash (store ! j) \<le> take 5 gh @ uf8ff
              \<and> defectType (store ! j) = defectTypeD det
              \<and> withinRadius (latitude (locationD det)) (longitude (locationD det)) (store ! j)"
  shows "(matchedReport store gh det = Some (ref, existing)
            \<longleftrightarrow> ref < length store \<and> store ! ref = existing \<and> near ref \<and> (\<forall>j<ref. \<not> near j))
     \<and> (ref < length store \<and> near ref \<and> (\<forall>j<ref. \<not> near j) \<longrightarrow>
          (\<exists>store'. aggregateDetection store det = Some store'
             \<and> length store' = length store
             \<and> (\<forall>j<length store. j \<noteq> ref \<longrightarrow> store' ! j = store ! j)
             \<and> uniqueUsers (store' ! ref)
                  = (if userId det \<in> set (uniqueUsers (store ! ref)) then uniqueUsers (store ! ref)
                     else uniqueUsers (store ! ref) @ [userId det])
             \<and> reportCount (store' ! ref) = reportCount (store ! ref) + 1
             \<and> averageSeverity (store' ! ref)
                  = (averageSeverity (store ! ref) * real (reportCount (store ! ref)) + severityD det)
                      / real (reportCount (store' ! ref))
             \<and> lastReported (store' ! ref) = timestampD det
             \<and> credibilityScore (store' ! ref)
                  = min 1 (0.3 + real (length (uniqueUsers (store' ! ref))) * 0.15
                             + log 10 (real (reportCount (store' ! ref))) * 0.2)
             \<and> credibilityScore (store' ! ref) \<le> 1))"
proof (intro conjI impI)
  show "matchedReport store gh det = Some (ref, existing)
          \<longleftrightarrow> ref < length store \<and> store ! ref = existing \<and> near ref \<and> (\<forall>j<ref. \<not> near j)"
  proof
    assume m: "matchedReport store gh det = Some (ref, existing)"
    note f = matchedReport_Some [OF m]
    from f(1,2,3,4,5) have "ref < length store \<and> store ! ref = existing \<and> near ref"
      by (simp add: near_def)
    moreover from f(6) have "\<forall>j<ref. \<not> near j" by (auto simp add: near_def)
    ultimately show "ref < length store \<and> store ! ref = existing \<and> near ref \<and> (\<forall>j<ref. \<not> near j)"
      by blast
  next
    assume a: "ref < length store \<and> store ! ref = existing \<and> near ref \<and> (\<forall>j<ref. \<not> near j)"
    then have "matchedReport store gh det = Some (ref, store ! ref)"
      by (intro matchedReport_first) (auto simp add: near_def)
    with a show "matchedReport store gh det = Some (ref, existing)" by simp
  qed
next
  assume a: "ref < length store \<and> near ref \<and> (\<forall>j<ref. \<not> near j)"
  then have m: "matchedReport store gh det = Some (ref, store ! ref)"
    by (intro matchedReport_first) (auto simp add: near_def)
  from a have r: "ref < length store" by blast
  show "\<exists>store'. aggregateDetection store det = Some store'
             \<and> length store' = length store
             \<and> (\<forall>j<length store. j \<noteq> ref \<longrightarrow> store' ! j = store ! j)
             \<and> uniqueUsers (store' ! ref)
                  = (if userId det \<in> set (uniqueUsers (store ! ref)) then uniqueUsers (store ! ref)
                     else uniqueUsers (store ! ref) @ [userId det])
             \<and> reportCount (store' ! ref) = reportCount (store ! ref) + 1
             \<and> averageSeverity (store' ! ref)
                  = (averageSeverity (store ! ref) * real (reportCount (store ! ref)) + severityD det)
                      / real (reportCount (store' ! ref))
             \<and> lastReported (store' ! ref) = timestampD det
             \<and> credibilityScore (store' ! ref)
                  = min 1 (0.3 + real (length (uniqueUsers (store' ! ref))) * 0.15
                             + log 10 (real (reportCount (store' ! ref))) * 0.2)
             \<and> credibilityScore (store' ! ref) \<le> 1"
    using assms(1,2) m r by (simp add: aggregateDetection_def Let_def)
qed

theorem aggregateDetection_update_witness:
  "defectTypeD (delhi_detection ''bob'' 6 2000) \<noteq> normal
   \<and> encodeGeohash 28.6139 77.2090 7 = Some ''ttnfucj''
   \<and> defectType (delhi_store ! 0) \<noteq> pothole
   \<and> geohash (delhi_store ! 1) = ''ttnfucj'' \<and> defectType (delhi_store ! 1) = pothole
   \<and> \<not> withinRadius 28.6139 77.2090 (delhi_store ! 1)
   \<and> withinRadius 28.6139 77.2090 (delhi_store ! 2)
   \<and> withinRadius 28.6139 77.2090 (delhi_store ! 3)
   \<and> matchedReport delhi_store ''ttnfucj'' (delhi_detection ''bob'' 6 2000) = Some (2, delhi_report)
   \<and> (\<exists>store'. aggregateDetection delhi_store (delhi_detection ''bob'' 6 2000) = Some store'
        \<and> length store' = 4
        \<and> store' ! 0 = delhi_breaker_report \<and> store' ! 1 = near_miss_report
        \<and> store' ! 3 = delhi_later_report
        \<and> uniqueUsers (store' ! 2) = [''alice'', ''bob'']
        \<and> reportCount (store' ! 2) = 2
        \<and> averageSeverity (store' ! 2) = 7
        \<and> lastReported (store' ! 2) = 2000
        \<and> 0.3 < credibilityScore (store' ! 2)
        \<and> credibilityScore (store' ! 2) \<le> 1)"
proof -
  let ?det = "delhi_detection ''bob'' 6 2000"
  have ty: "defectTypeD ?det \<noteq> normal" by (simp add: delhi_detection_def)
  have loc: "latitude (locationD ?det) = 28.6139" "longitude (locationD ?det) = 77.2090"
    and dty: "defectTypeD ?det = pothole" and usr: "userId ?det = ''bob''"
    and sev: "severityD ?det = 6" and tsd: "timestampD ?det = 2000"
    by (simp_all add: delhi_detection_def)
  have gh: "encodeGeohash (latitude (locationD ?det)) (longitude (locationD ?det)) 7 = Some ''ttnfucj''"
    using encodeGeohash_delhi by (simp add: loc)
  have st: "delhi_store ! 0 = delhi_breaker_report" "delhi_store ! 1 = near_miss_report"
    "delhi_store ! 2 = delhi_report" "delhi_store ! 3 = delhi_later_report"
    "length delhi_store = 4"
    by (simp_all add: delhi_store_def)
  have w3: "withinRadius 28.6139 77.2090 delhi_later_report"
    by (simp add: withinRadius_def calculateDistance_def Math_atan2_def AGGREGATION_RADIUS_def
        delhi_later_report_def)
  have t0: "defectType delhi_breaker_report \<noteq> pothole" by (simp add: delhi_breaker_report_def)
  have g1: "geohash near_miss_report = ''ttnfucj''" "defectType near_miss_report = pothole"
    by (simp_all add: near_miss_report_def)
  have g2: "geohash delhi_report = ''ttnfucj''" "defectType delhi_report = pothole"
    "uniqueUsers delhi_report = [''alice'']" "reportCount delhi_report = 1"
    "averageSeverity delhi_report = 8"
    by (simp_all add: delhi_report_def)
  note t = aggregateDetection_update [OF ty gh, where store = delhi_store and ref = 2 and existing = delhi_report,
      unfolded loc dty st less_two_cases g2]
  have first: "2 < (4 :: nat)
      \<and> (take 5 ''ttnfucj'' \<le> ''ttnfucj'' \<and> ''ttnfucj'' \<le> take 5 ''ttnfucj'' @ uf8ff
           \<and> pothole = pothole \<and> withinRadius 28.6139 77.2090 delhi_report)
      \<and> \<not> (take 5 ''ttnfucj'' \<le> geohash delhi_breaker_report
             \<and> geohash delhi_breaker_report \<le> take 5 ''ttnfucj'' @ uf8ff
             \<and> defectType delhi_breaker_report = pothole
             \<and> withinRadius 28.6139 77.2090 delhi_breaker_report)
      \<and> \<not> (take 5 ''ttnfucj'' \<le> geohash near_miss_report
             \<and> geohash near_miss_report \<le> take 5 ''ttnfucj'' @ uf8ff
             \<and> defectType near_miss_report = pothole
             \<and> withinRadius 28.6139 77.2090 near_miss_report)"
    using delhi_prefix withinRadius_delhi t0 near_miss_outside by simp
  from t first have m: "matchedReport delhi_store ''ttnfucj'' ?det = Some (2, delhi_report)"
    by blast
  from t first obtain store'
    where s: "aggregateDetection delhi_store ?det = Some store'"
      and f: "length store' = 4"
        "\<forall>j<4. j \<noteq> 2 \<longrightarrow> store' ! j = delhi_store ! j"
        "uniqueUsers (store' ! 2)
           = (if userId ?det \<in> set [''alice''] then [''alice''] else [''alice''] @ [userId ?det])"
        "reportCount (store' ! 2) = 1 + 1"
        "averageSeverity (store' ! 2) = (8 * real 1 + severityD ?det) / real (reportCount (store' ! 2))"
        "lastReported (store' ! 2) = timestampD ?det"
        "credibilityScore (store' ! 2)
           = min 1 (0.3 + real (length (uniqueUsers (store' ! 2))) * 0.15
                      + log 10 (real (reportCount (store' ! 2))) * 0.2)"
        "credibilityScore (store' ! 2) \<le> 1"
    by blast
  have o: "store' ! 0 = delhi_breaker_report" "store' ! 1 = near_miss_report"
    "store' ! 3 = delhi_later_report"
  proof -
    have "store' ! 0 = delhi_store ! 0" "store' ! 1 = delhi_store ! 1" "store' ! 3 = delhi_store ! 3"
      using f(2) by simp_all
    then show "store' ! 0 = delhi_breaker_report" "store' ! 1 = near_miss_report"
      "store' ! 3 = delhi_later_report"
      unfolding st by - assumption+
  qed
  have u: "uniqueUsers (store' ! 2) = [''alice'', ''bob'']" using f(3) by (simp add: usr)
  have c: "reportCount (store' ! 2) = 2" using f(4) by simp
  have a: "averageSeverity (store' ! 2) = 7" using f(5) by (simp add: c sev)
  have l: "lastReported (store' ! 2) = 2000" using f(6) by (simp add: tsd)
  have lg: "(0 :: real) < log 10 2" by simp
  have gen: "0 < v \<Longrightarrow> 0.3 < min 1 (0.3 + real 2 * 0.15 + v * 0.2)" for v :: real
    by (simp add: min_def)
  have cr: "0.3 < credibilityScore (store' ! 2)"
    using gen [OF lg] unfolding f(7) u c by simp
  from ty encodeGeohash_delhi t0 g1 near_miss_outside withinRadius_delhi w3 m s f(1) o u c a l cr f(8)
  show ?thesis unfolding st by blast
qed

text \<open>
  Claim C2. When the detection is not \<open>normal\<close> and no existing report of the same defect
  type lies within 25 metres, exactly one report is added: its \<open>reportCount\<close> is 1, its
  \<open>averageSeverity\<close> is the detection's severity, its \<open>uniqueUsers\<close> is the one-element list
  of the detection's user id, its \<open>firstReported\<close> and \<open>lastReported\<close> are the detection's
  timestamp, its \<open>credibilityScore\<close> is 0.3 and its geohash is the precision-7 geohash of the
  detection's location.
\<close>

theorem aggregateDetection_create:
  assumes "defectTypeD det \<noteq> normal"
    and "\<forall>r\<in>set store. defectType r = defectTypeD det
             \<longrightarrow> \<not> withinRadius (latitude (locationD det)) (longitude (locationD det)) r"
  shows "\<exists>gh. encodeGeohash (latitude (locationD det)) (longitude (locationD det)) 7 = Some gh
      \<and> aggregateDetection store det = Some (store @
           [\<lparr>geohash = gh,
             location = \<lparr>latitude = latitude (locationD det), longitude = longitude (locationD det)\<rparr>,
             defectType = defectTypeD det,
             averageSeverity = severityD det,
             reportCount = 1,
             uniqueUsers = [userId det],
             firstReported = timestampD det,
             lastReported = timestampD det,
             credibilityScore = 0.3\<rparr>])"
proof -
  from encodeGeohash_total obtain gh
    where gh: "encodeGeohash (latitude (locationD det)) (longitude (locationD det)) 7 = Some gh"
    by blast
  from assms(1) gh matchedReport_None [OF assms(2), of gh] show ?thesis
    by (simp add: aggregateDetection_def Let_def)
qed

theorem aggregateDetection_create_witness:
  "defectTypeD origin_detection \<noteq> normal
   \<and> defectType origin_breaker_report \<noteq> defectTypeD origin_detection
   \<and> \<not> withinRadius (latitude (locationD origin_detection))
          (longitude (locationD origin_detection)) origin_far_report
   \<and> aggregateDetection [origin_breaker_report, origin_far_report] origin_detection
       = Some [origin_breaker_report, origin_far_report,
           \<lparr>geohash = ''s000000'', location = \<lparr>latitude = 0, longitude = 0\<rparr>,
            defectType = pothole, averageSeverity = 8, reportCount = 1,
            uniqueUsers = [''alice''], firstReported = 1000, lastReported = 1000,
            credibilityScore = 0.3\<rparr>]"
proof -
  have loc: "latitude (locationD origin_detection) = 0" "longitude (locationD origin_detection) = 0"
    by (simp_all add: origin_detection_def)
  have ty: "defectTypeD origin_detection \<noteq> normal" by (simp add: origin_detection_def)
  have other: "defectType origin_breaker_report \<noteq> defectTypeD origin_detection"
    by (simp add: origin_breaker_report_def origin_detection_def)
  have out: "\<not> withinRadius (latitude (locationD origin_detection))
          (longitude (locationD origin_detection)) origin_far_report"
    using far_report_outside by (simp add: loc)
  have far: "\<forall>r\<in>set [origin_breaker_report, origin_far_report].
         defectType r = defectTypeD origin_detection \<longrightarrow>
           \<not> withinRadius (latitude (locationD origin_detection))
                (longitude (locationD origin_detection)) r"
    using other out by simp
  from aggregateDetection_create [OF ty far] encodeGeohash_origin
  have "aggregateDetection [origin_breaker_report, origin_far_report] origin_detection
       = Some [origin_breaker_report, origin_far_report,
           \<lparr>geohash = ''s000000'', location = \<lparr>latitude = 0, longitude = 0\<rparr>,
            defectType = pothole, averageSeverity = 8, reportCount = 1,
            uniqueUsers = [''alice''], firstReported = 1000, lastReported = 1000,
            credibilityScore = 0.3\<rparr>]"
    by (simp add: loc) (simp add: origin_detection_def)
  with ty other out show ?thesis by blast
qed

text \<open>
  Claim C7. An aggregation invocation changes no field of an existing report other than
  \<open>reportCount\<close>, \<open>averageSeverity\<close>, \<open>uniqueUsers\<close>, \<open>lastReported\<close> and \<open>credibilityScore\<close>:
  the location, defect type, geohash and \<open>firstReported\<close> of every report in the collection,
  the matched one included, are what they were before the invocation.
\<close>

theorem aggregateDetection_frame:
  assumes "aggregateDetection store det = Some store'" and "j < length store"
  shows "(\<exists>a b c d e. store' ! j = (store ! j)\<lparr>reportCount := a, averageSeverity := b,
              uniqueUsers := c, lastReported := d, credibilityScore := e\<rparr>)
      \<and> location (store' ! j) = location (store ! j)
      \<and> defectType (store' ! j) = defectType (store ! j)
      \<and> geohash (store' ! j) = geohash (store ! j)
      \<and> firstReported (store' ! j) = firstReported (store ! j)"
proof -
  have keep: "\<exists>a b c d e. store ! j = (store ! j)\<lparr>reportCount := a, averageSeverity := b,
              uniqueUsers := c, lastReported := d, credibilityScore := e\<rparr>"
    by (rule exI [of _ "reportCount (store ! j)"], rule exI [of _ "averageSeverity (store ! j)"],
        rule exI [of _ "uniqueUsers (store ! j)"], rule exI [of _ "lastReported (store ! j)"],
        rule exI [of _ "credibilityScore (store ! j)"]) simp
  have ex: "\<exists>a b c d e. store' ! j = (store ! j)\<lparr>reportCount := a, averageSeverity := b,
              uniqueUsers := c, lastReported := d, credibilityScore := e\<rparr>"
  proof (cases "defectTypeD det = normal")
    case True
    with assms(1) have "store' = store" by (simp add: aggregateDetection_def)
    with keep show ?thesis by simp
  next
    case False
    from encodeGeohash_total obtain gh
      where gh: "encodeGeohash (latitude (locationD det)) (longitude (locationD det)) 7 = Some gh"
      by blast
    show ?thesis
    proof (cases "matchedReport store gh det")
      case None
      with assms False gh have "store' ! j = store ! j"
        by (auto simp add: aggregateDetection_def Let_def nth_append)
      with keep show ?thesis by simp
    next
      case (Some m)
      obtain ref existing where m: "m = (ref, existing)" by (cases m)
      show ?thesis
      proof (cases "j = ref")
        case True
        with assms False gh Some m matchedReport_Some(1) [of store gh det ref existing] show ?thesis
          by (auto simp add: aggregateDetection_def Let_def) blast+
      next
        case False
        with assms \<open>defectTypeD det \<noteq> normal\<close> gh Some m have "store' ! j = store ! j"
          by (auto simp add: aggregateDetection_def Let_def)
        with keep show ?thesis by simp
      qed
    qed
  qed
  then obtain a b c d e where "store' ! j = (store ! j)\<lparr>reportCount := a, averageSeverity := b,
              uniqueUsers := c, lastReported := d, credibilityScore := e\<rparr>"
    by blast
  then have "location (store' ! j) = location (store ! j)
      \<and> defectType (store' ! j) = defectType (store ! j)
      \<and> geohash (store' ! j) = geohash (store ! j)
      \<and> firstReported (store' ! j) = firstReported (store ! j)"
    by simp
  with ex show ?thesis by blast
qed

theorem aggregateDetection_frame_witness:
  "\<exists>store'. aggregateDetection [delhi_report] (delhi_detection ''bob'' 6 2000) = Some store'
      \<and> (0 :: nat) < length [delhi_report]
      \<and> reportCount (store' ! 0) = 2
      \<and> location (store' ! 0) = \<lparr>latitude = 28.6139, longitude = 77.2090\<rparr>
      \<and> defectType (store' ! 0) = pothole
      \<and> geohash (store' ! 0) = ''ttnfucj''
      \<and> firstReported (store' ! 0) = 1000"
proof -
  have m: "matchedReport [delhi_report] ''ttnfucj'' (delhi_detection ''bob'' 6 2000)
             = Some (0, delhi_report)"
    by (rule matchedReport_delhi)
  have "\<exists>store'. aggregateDetection [delhi_report] (delhi_detection ''bob'' 6 2000) = Some store'
          \<and> reportCount (store' ! 0) = 2"
    using encodeGeohash_delhi m
    by (simp add: aggregateDetection_def Let_def) (simp add: delhi_detection_def delhi_report_def)
  then obtain store' where s: "aggregateDetection [delhi_report] (delhi_detection ''bob'' 6 2000) = Some store'"
    and c: "reportCount (store' ! 0) = 2" by blast
  have "(0 :: nat) < length [delhi_report]" by simp
  from aggregateDetection_frame [OF s this] s c show ?thesis by (simp add: delhi_report_def)
qed

section \<open>Retention Sweeper\<close>

lemma map_snd_filter_enumerate:
  "map snd (filter (\<lambda>(i, x). P x) (enumerate n xs)) = filter P xs"
  by (induction xs arbitrary: n) simp_all

lemma enumerate_index_selected:
  assumes "p \<in> set (enumerate n xs)"
  shows "fst p \<in> set (map fst (filter (\<lambda>(i, x). P x) (enumerate n xs))) \<longleftrightarrow> P (snd p)"
proof
  assume "fst p \<in> set (map fst (filter (\<lambda>(i, x). P x) (enumerate n xs)))"
  then obtain q where q: "q \<in> set (enumerate n xs)" "P (snd q)" "fst q = fst p"
    by (auto simp add: case_prod_unfold)
  with assms have "snd q = snd p" by (auto simp add: in_set_enumerate_eq)
  with q(2) show "P (snd p)" by simp
next
  assume "P (snd p)"
  with assms have "p \<in> set (filter (\<lambda>(i, x). P x) (enumerate n xs))"
    by (simp add: case_prod_unfold)
  then show "fst p \<in> set (map fst (filter (\<lambda>(i, x). P x) (enumerate n xs)))"
    by (metis imageI set_map)
qed

lemma batch_delete_filter:
  "map snd (filter (\<lambda>(ref, report). ref \<notin> set (map fst (filter (\<lambda>(i, x). P x) (enumerate n xs))))
      (enumerate n xs)) = filter (\<lambda>x. \<not> P x) xs"
proof -
  have "filter (\<lambda>(ref, report). ref \<notin> set (map fst (filter (\<lambda>(i, x). P x) (enumerate n xs)))) (enumerate n xs)
        = filter (\<lambda>(i, x). \<not> P x) (enumerate n xs)"
    by (rule filter_cong [OF refl]) (use enumerate_index_selected [of _ n xs P] in \<open>auto simp add: case_prod_unfold\<close>)
  then show ?thesis by (simp add: map_snd_filter_enumerate)
qed

lemma unverifiedReports_eq:
  "unverifiedReports now store = filter (\<lambda>(ref, report). stale now report) (enumerate 0 store)"
  by (simp add: unverifiedReports_def stale_def)

lemma cleanupOldDetections_filter:
  "cleanupOldDetections now store = filter (\<lambda>report. \<not> stale now report) store"
proof (cases "unverifiedReports now store = []")
  case True
  then have "\<forall>p\<in>set (enumerate 0 store). \<not> stale now (snd p)"
    by (auto simp add: unverifiedReports_eq filter_empty_conv)
  moreover have "\<exists>p\<in>set (enumerate 0 store). snd p = r" if "r \<in> set store" for r
  proof -
    from that obtain k where "k < length store" "store ! k = r" by (auto simp add: in_set_conv_nth)
    then have "(k, r) \<in> set (enumerate 0 store)" by (simp add: in_set_enumerate_eq)
    then show ?thesis by force
  qed
  ultimately have "\<forall>r\<in>set store. \<not> stale now r" by blast
  then have "filter (\<lambda>report. \<not> stale now report) store = store" by simp
  with True show ?thesis by (simp add: cleanupOldDetections_def)
next
  case False
  then have "cleanupOldDetections now store
      = map snd (filter (\<lambda>(ref, report). ref \<notin> set (map fst (unverifiedReports now store)))
          (enumerate 0 store))"
    by (simp add: cleanupOldDetections_def Let_def del: set_map)
  also have "\<dots> = filter (\<lambda>report. \<not> stale now report) store"
    unfolding unverifiedReports_eq by (rule batch_delete_filter)
  finally show ?thesis .
qed

text \<open>
  What a run at a later clock value \<open>now2\<close> can still select after a run at \<open>now\<close>: only
  single-report documents that crossed the 30-day cutoff between the two clock values.
\<close>

lemma later_sweep_selects_newly_stale:
  assumes "p \<in> set (unverifiedReports now2 (cleanupOldDetections now store))"
  shows "reportCount (snd p) = 1 \<and> now - 30 * 24 * 60 * 60 * 1000 \<le> lastReported (snd p)
         \<and> lastReported (snd p) < now2 - 30 * 24 * 60 * 60 * 1000"
proof -
  from assms have "stale now2 (snd p)"
    and "p \<in> set (enumerate 0 (filter (\<lambda>report. \<not> stale now report) store))"
    by (auto simp add: unverifiedReports_eq cleanupOldDetections_filter)
  moreover from this(2) have "\<not> stale now (snd p)"
    using enumerate_snd_mem by fastforce
  ultimately show ?thesis by (auto simp add: stale_def)
qed

text \<open>
  Claim C4. One run of the Retention Sweeper at clock value \<open>now\<close> deletes a report if and
  only if its \<open>reportCount\<close> is 1 and its \<open>lastReported\<close> is earlier than 30 days before \<open>now\<close>;
  every other report is retained. A second run at the same clock value finds nothing to
  delete and leaves the collection as the first run left it.
\<close>

theorem cleanupOldDetections_deletes:
  "(ref < length store \<longrightarrow>
      (ref \<in> set (map fst (unverifiedReports now store))
         \<longleftrightarrow> reportCount (store ! ref) = 1
             \<and> lastReported (store ! ref) < now - 30 * 24 * 60 * 60 * 1000))
   \<and> cleanupOldDetections now store
       = filter (\<lambda>report. \<not> (reportCount report = 1
                     \<and> lastReported report < now - 30 * 24 * 60 * 60 * 1000)) store
   \<and> cleanupOldDetections now (cleanupOldDetections now store) = cleanupOldDetections now store
   \<and> unverifiedReports now (cleanupOldDetections now store) = []"
proof -
  have a: "ref \<in> set (map fst (unverifiedReports now store)) \<longleftrightarrow> stale now (store ! ref)"
    if "ref < length store"
  proof -
    from that have "(ref, store ! ref) \<in> set (enumerate 0 store)"
      by (simp add: in_set_enumerate_eq)
    from enumerate_index_selected [OF this, of "stale now"] show ?thesis
      by (simp add: unverifiedReports_eq)
  qed
  have b: "cleanupOldDetections now (cleanupOldDetections now store) = cleanupOldDetections now store"
    by (simp add: cleanupOldDetections_filter)
  have c: "unverifiedReports now (cleanupOldDetections now store) = []"
    unfolding unverifiedReports_eq cleanupOldDetections_filter filter_empty_conv
    using enumerate_snd_mem [of _ 0 "filter (\<lambda>report. \<not> stale now report) store"]
    by (auto simp add: case_prod_unfold)
  from a b c show ?thesis
    by (simp add: cleanupOldDetections_filter stale_def)
qed

theorem cleanupOldDetections_deletes_witness:
  "(0 :: nat) < length [old_single, recent_single, old_verified]
   \<and> map fst (unverifiedReports (1000 * day) [old_single, recent_single, old_verified]) = [0]
   \<and> cleanupOldDetections (1000 * day) [old_single, recent_single, old_verified]
       = [recent_single, old_verified]
   \<and> cleanupOldDetections (1000 * day)
        (cleanupOldDetections (1000 * day) [old_single, recent_single, old_verified])
       = [recent_single, old_verified]
   \<and> unverifiedReports (1000 * day)
        (cleanupOldDetections (1000 * day) [old_single, recent_single, old_verified]) = []"
proof -
  let ?store = "[old_single, recent_single, old_verified]"
  note t = cleanupOldDetections_deletes [of 0 ?store "1000 * day"]
  have q: "map fst (unverifiedReports (1000 * day) ?store) = [0]"
    by (simp add: unverifiedReports_def old_single_def recent_single_def old_verified_def
        delhi_report_def day_def)
  have c: "cleanupOldDetections (1000 * day) ?store = [recent_single, old_verified]"
    using t by (simp add: old_single_def recent_single_def old_verified_def delhi_report_def day_def)
  from t q c show ?thesis by simp
qed

end
